theory Spec2Isabelle
  imports Main "HOL-Library.Sublist"
begin

section \<open>Strings, errors and the Todo record\<close>

text \<open>
  Go strings are byte sequences; they are modelled as \<open>string\<close> (a list of 8-bit
  characters). The two bytes the line readers look at are named.
\<close>

definition newline :: char where
  "newline = CHR 0x0A"

definition carriage_return :: char where
  "carriage_return = CHR 0x0D"

text \<open>
  Go's \<open>error\<close> interface. \<open>EOF\<close> is \<open>io.EOF\<close>, \<open>ErrTooLong\<close> is
  \<open>bufio.ErrTooLong\<close>, \<open>ErrNotExist\<close> is what \<open>os.Open\<close> and \<open>os.Rename\<close>
  report for a missing path; every other error value is \<open>ErrOther\<close> with its message.
\<close>

datatype error = EOF | ErrTooLong | ErrNotExist | ErrOther string

text \<open>
  \<open>type Todo struct\<close>. The pointer \<open>ID *string\<close> is an option. \<open>Line\<close> is a Go
  \<open>int\<close>; line counters only ever count lines of a file, so an unbounded integer is
  used.
\<close>

record Todo =
  Prefix :: string
  Suffix :: string
  ID :: "string option"
  Filename :: string
  Line :: int
  Title :: string

text \<open>
  \<open>ProjectConfig\<close> is declared outside the files at hand. The only use the parser
  makes of it is \<open>projectConfig.Title.Transform(suffix)\<close>, so the configuration is
  taken as that function.
\<close>

record ProjectConfig =
  Title_Transform :: "string \<Rightarrow> string"

section \<open>Canonical form\<close>

text \<open>\<open>func (todo Todo) String() string\<close>\<close>

definition String :: "Todo \<Rightarrow> string" where
  "String todo =
     (case ID todo of
        None \<Rightarrow> Prefix todo @ ''TODO: '' @ Suffix todo
      | Some i \<Rightarrow> Prefix todo @ ''TODO('' @ i @ ''): '' @ Suffix todo)"

section \<open>The regular expressions\<close>

text \<open>
  Both patterns of the source, \<^verbatim>\<open>^(.*)TODO: (.*)$\<close> and
  \<^verbatim>\<open>^(.*)TODO\((.*)\): (.*)$\<close>, are anchored sequences of literals and greedy
  capture groups \<^verbatim>\<open>(.*)\<close>. Go's \<open>regexp\<close> has no multi-line flag set here, so
  \<^verbatim>\<open>^\<close> and \<^verbatim>\<open>$\<close> are the two ends of the text and \<^verbatim>\<open>.\<close> is any byte but
  the newline. \<open>FindStringSubmatch\<close> returns the leftmost-first match: each greedy
  group takes the longest stretch for which the rest of the pattern still matches,
  earlier groups having priority.
\<close>

datatype item = Lit string | Grp

text \<open>\<open>greedy f k\<close> is the first success among \<open>f k\<close>, \<open>f (k - 1)\<close>, ..., \<open>f 0\<close>.\<close>

fun greedy :: "(nat \<Rightarrow> 'a option) \<Rightarrow> nat \<Rightarrow> 'a option" where
  "greedy f 0 = f 0"
| "greedy f (Suc n) = (case f (Suc n) of Some r \<Rightarrow> Some r | None \<Rightarrow> greedy f n)"

text \<open>The longest stretch \<^verbatim>\<open>.*\<close> can take at the head of a text.\<close>

definition dot_span :: "string \<Rightarrow> nat" where
  "dot_span s = length (takeWhile (\<lambda>c. c \<noteq> newline) s)"

text \<open>
  \<open>regex_match p s\<close> matches the whole of \<open>s\<close> against the items \<open>p\<close> and returns
  the texts of the capture groups in order (the source's \<open>groups[1]\<close>, \<open>groups[2]\<close>,
  ...), or \<open>None\<close> where \<open>FindStringSubmatch\<close> returns \<open>nil\<close>.
\<close>

fun regex_match :: "item list \<Rightarrow> string \<Rightarrow> string list option" where
  "regex_match [] s = (if s = [] then Some [] else None)"
| "regex_match (Lit l # p) s =
     (if take (length l) s = l then regex_match p (drop (length l) s) else None)"
| "regex_match (Grp # p) s =
     greedy (\<lambda>n. map_option (\<lambda>gs. take n s # gs) (regex_match p (drop n s))) (dot_span s)"

definition unreportedTodo_regexp :: "item list" where
  "unreportedTodo_regexp = [Grp, Lit ''TODO: '', Grp]"

definition reportedTodo_regexp :: "item list" where
  "reportedTodo_regexp = [Grp, Lit ''TODO('', Grp, Lit ''): '', Grp]"

section \<open>Parsing a line\<close>

text \<open>\<open>func lineAsUnreportedTodo(projectConfig ProjectConfig, line string) *Todo\<close>\<close>

definition lineAsUnreportedTodo :: "ProjectConfig \<Rightarrow> string \<Rightarrow> Todo option" where
  "lineAsUnreportedTodo projectConfig line =
     (case regex_match unreportedTodo_regexp line of
        Some [prefix', suffix'] \<Rightarrow>
          Some \<lparr>Prefix = prefix', Suffix = suffix', ID = None, Filename = [], Line = 0,
                Title = Title_Transform projectConfig suffix'\<rparr>
      | _ \<Rightarrow> None)"

text \<open>\<open>func lineAsReportedTodo(projectConfig ProjectConfig, line string) *Todo\<close>\<close>

definition lineAsReportedTodo :: "ProjectConfig \<Rightarrow> string \<Rightarrow> Todo option" where
  "lineAsReportedTodo projectConfig line =
     (case regex_match reportedTodo_regexp line of
        Some [prefix', id', suffix'] \<Rightarrow>
          Some \<lparr>Prefix = prefix', Suffix = suffix', ID = Some id', Filename = [], Line = 0,
                Title = Title_Transform projectConfig suffix'\<rparr>
      | _ \<Rightarrow> None)"

text \<open>
  \<open>func LineAsTodo(projectConfig ProjectConfig, line string) *Todo\<close>: the unreported
  shape is tried first, the reported shape only when it fails. The older version of
  the program has the same three functions with the same two patterns in the same
  order; its Todo has no \<open>Title\<close> and its functions take no \<open>ProjectConfig\<close>.
\<close>

definition LineAsTodo :: "ProjectConfig \<Rightarrow> string \<Rightarrow> Todo option" where
  "LineAsTodo projectConfig line =
     (case lineAsUnreportedTodo projectConfig line of
        Some todo \<Rightarrow> Some todo
      | None \<Rightarrow>
          (case lineAsReportedTodo projectConfig line of
             Some todo \<Rightarrow> Some todo
           | None \<Rightarrow> None))"

section \<open>Files and the operating system\<close>

text \<open>
  What a reader gets from an open file: the bytes it delivers, then the error that ends
  the reading, \<open>EOF\<close> for a file read to its end and any other error for a read that
  fails.
\<close>

record File =
  data :: string
  read_err :: error

text \<open>
  The part of the world the program touches. \<open>files\<close> maps a path to the file found
  there. Whether \<open>os.Open\<close>, \<open>os.Create\<close> and \<open>os.Rename\<close> are refused
  (permissions, a full disk, ...) is decided outside the program, so the refusals are
  fields of the world; so is the output of \<^verbatim>\<open>git ls-files\<close>, the bytes written
  to its standard output or the error of \<open>cmd.Run()\<close>.

  Writing can fail as well. \<open>write_fault name i = Some k\<close> says that the \<open>i\<close>-th
  \<open>Write\<close> to the file created at \<open>name\<close>, counted from 0, fails after \<open>k\<close> of
  its bytes (a full disk, an input/output error); \<open>close_fault name = Some k\<close> says
  that \<open>Close\<close> of that file fails and that only the first \<open>k\<close> of the bytes
  written have reached it.
\<close>

record world =
  files :: "string \<rightharpoonup> File"
  open_err :: "string \<Rightarrow> error option"
  create_err :: "string \<Rightarrow> error option"
  rename_err :: "string \<Rightarrow> string \<Rightarrow> error option"
  write_fault :: "string \<Rightarrow> nat \<Rightarrow> nat option"
  close_fault :: "string \<Rightarrow> nat option"
  git_ls_files :: "string \<Rightarrow> error + string"

text \<open>\<open>os.Open(name)\<close>: the error, or \<open>None\<close> when the file is open for reading.\<close>

definition os_Open :: "world \<Rightarrow> string \<Rightarrow> error option" where
  "os_Open w name =
     (case open_err w name of
        Some err \<Rightarrow> Some err
      | None \<Rightarrow> (case files w name of None \<Rightarrow> Some ErrNotExist | Some f \<Rightarrow> None))"

text \<open>
  What an open file delivers. Nothing in the program removes or renames a file while it
  is open for reading, so the handle is the path; a file truncated after it was opened
  reads as empty.
\<close>

definition read_handle :: "world \<Rightarrow> string \<Rightarrow> File" where
  "read_handle w name =
     (case files w name of Some f \<Rightarrow> f | None \<Rightarrow> \<lparr>data = [], read_err = EOF\<rparr>)"

text \<open>\<open>os.Create(name)\<close>: creates the file or truncates the one that is there.\<close>

definition os_Create :: "world \<Rightarrow> string \<Rightarrow> error + world" where
  "os_Create w name =
     (case create_err w name of
        Some err \<Rightarrow> Inl err
      | None \<Rightarrow> Inr (w\<lparr>files := (files w)(name \<mapsto> \<lparr>data = [], read_err = EOF\<rparr>)\<rparr>))"

text \<open>\<open>os.Rename(oldpath, newpath)\<close>: replaces whatever is at \<open>newpath\<close>.\<close>

definition os_Rename :: "world \<Rightarrow> string \<Rightarrow> string \<Rightarrow> error option \<times> world" where
  "os_Rename w oldpath newpath =
     (case rename_err w oldpath newpath of
        Some err \<Rightarrow> (Some err, w)
      | None \<Rightarrow>
          (case files w oldpath of
             None \<Rightarrow> (Some ErrNotExist, w)
           | Some f \<Rightarrow> (None, w\<lparr>files := ((files w)(oldpath := None))(newpath \<mapsto> f)\<rparr>)))"

section \<open>The line readers of \<open>bufio\<close>\<close>

text \<open>\<open>dropCR\<close> of \<open>bufio\<close>: drops one trailing carriage return.\<close>

definition dropCR :: "string \<Rightarrow> string" where
  "dropCR bs = (if bs \<noteq> [] \<and> last bs = carriage_return then butlast bs else bs)"

text \<open>\<open>bufio.MaxScanTokenSize\<close>, the size the buffer of a \<open>Scanner\<close> may grow to.\<close>

definition MaxScanTokenSize :: nat where
  "MaxScanTokenSize = 65536"

text \<open>
  \<open>bufio.NewScanner\<close> with the default split function \<open>ScanLines\<close>:
  \<open>scan_tokens bs e\<close> is the list of the texts \<open>scanner.Text()\<close> for which
  \<open>scanner.Scan()\<close> returns true on a file delivering \<open>bs\<close> and then \<open>e\<close>, together
  with \<open>scanner.Err()\<close> when \<open>Scan\<close> returns false. A line ends at a newline, one
  carriage return before it is dropped, and a last line without newline is returned
  when it is not empty. A line must fit the buffer together with its newline, and a
  last line without newline must leave room for the read that finds the end; otherwise
  \<open>Scan\<close> stops with \<open>ErrTooLong\<close>. \<open>Err()\<close> is \<open>nil\<close> when reading ended with
  \<open>io.EOF\<close>.
\<close>

function scan_tokens :: "string \<Rightarrow> error \<Rightarrow> string list \<times> error option" where
  "scan_tokens bs e =
     (if bs = [] then ([], if e = EOF then None else Some e)
      else
        let n = length (takeWhile (\<lambda>c. c \<noteq> newline) bs) in
        if n < length bs then
          (if MaxScanTokenSize < Suc n then ([], Some ErrTooLong)
           else
             (case scan_tokens (drop (Suc n) bs) e of
                (tokens, err) \<Rightarrow> (dropCR (take n bs) # tokens, err)))
        else
          (if MaxScanTokenSize \<le> n then ([], Some ErrTooLong)
           else ([dropCR bs], if e = EOF then None else Some e)))"
  by pat_completeness auto
termination
  by (relation "measure (\<lambda>(bs, e). length bs)") auto

text \<open>The buffer size of \<open>bufio.NewReader\<close>.\<close>

definition defaultBufSize :: nat where
  "defaultBufSize = 4096"

text \<open>
  \<open>read_lines bs\<close> is the list of the texts that successive calls of
  \<open>reader.ReadLine()\<close> return with a \<open>nil\<close> error on a file delivering \<open>bs\<close>; the
  call after them returns the error that ends the file. \<open>ReadLine\<close> looks for a
  newline in the buffer; a line that fills the buffer without one is returned in
  pieces (\<open>isPrefix\<close>, which the source discards), a carriage return at the end of a
  piece being left for the next call.
\<close>

function read_lines :: "string \<Rightarrow> string list" where
  "read_lines bs =
     (if bs = [] then []
      else
        let buf = take defaultBufSize bs;
            n = length (takeWhile (\<lambda>c. c \<noteq> newline) buf) in
        if n < length buf then dropCR (take n bs) # read_lines (drop (Suc n) bs)
        else if length buf = defaultBufSize then
          (if last buf = carriage_return
           then butlast buf # read_lines (drop (defaultBufSize - 1) bs)
           else buf # read_lines (drop defaultBufSize bs))
        else [bs])"
  by pat_completeness auto
termination
  by (relation "measure length") (auto simp: defaultBufSize_def)

section \<open>The in-place rewriter\<close>

text \<open>
  \<open>fmt.Fprintln(outputFile, replace)\<close>: one \<open>Write\<close> of the text and a newline.
  The bytes that reach the file are all of them, or the first \<open>k\<close> when the write
  fails after \<open>k\<close> bytes. The source drops the result of the call.
\<close>

definition Fprintln :: "nat option \<Rightarrow> string \<Rightarrow> string" where
  "Fprintln fault replace =
     (case fault of None \<Rightarrow> replace @ [newline] | Some k \<Rightarrow> take k (replace @ [newline]))"

text \<open>
  The loop of \<open>updateToFile\<close>: the bytes that reach the output file for the lines
  from \<open>lineNumber\<close> on, \<open>writes\<close> being the number of calls of \<open>Fprintln\<close> made
  so far and \<open>fault\<close> telling which calls fail. A failed call does not end the loop.
\<close>

fun rewrite_lines ::
  "(nat \<Rightarrow> nat option) \<Rightarrow> (int \<Rightarrow> string \<Rightarrow> string \<times> bool) \<Rightarrow> int \<Rightarrow> nat \<Rightarrow> string list
     \<Rightarrow> string" where
  "rewrite_lines fault lineCallback lineNumber writes [] = []"
| "rewrite_lines fault lineCallback lineNumber writes (line # rest) =
     (case lineCallback lineNumber line of
        (replace, remove) \<Rightarrow>
          (if \<not> remove
           then Fprintln (fault writes) replace
                @ rewrite_lines fault lineCallback (lineNumber + 1) (Suc writes) rest
           else rewrite_lines fault lineCallback (lineNumber + 1) writes rest))"

text \<open>
  \<open>outputFile.Close()\<close> in the deferred function: what the file holds afterwards,
  of the bytes written to it.
\<close>

definition kept_after_Close :: "world \<Rightarrow> string \<Rightarrow> string \<Rightarrow> string" where
  "kept_after_Close w name written =
     (case close_fault w name of None \<Rightarrow> written | Some k \<Rightarrow> take k written)"

text \<open>
  \<open>func (todo Todo) updateToFile(outputFilename string, lineCallback ...) error\<close>.
  The value returned after the loop is the \<open>err\<close> of \<open>os.Create\<close>, which is \<open>nil\<close>
  there: \<open>scanner.Err()\<close> is not consulted, the result of \<open>Fprintln\<close> is dropped,
  and the deferred function assigns the error of \<open>Close\<close> to \<open>err\<close> after the
  result has been fixed. So a failed read, a failed write and a failed \<open>Close\<close> show
  in the bytes of the output file and not in the error returned.
\<close>

definition updateToFile ::
  "Todo \<Rightarrow> string \<Rightarrow> (int \<Rightarrow> string \<Rightarrow> string \<times> bool) \<Rightarrow> world \<Rightarrow> error option \<times> world" where
  "updateToFile todo outputFilename lineCallback w =
     (case os_Open w (Filename todo) of
        Some err \<Rightarrow> (Some err, w)
      | None \<Rightarrow>
          (case os_Create w outputFilename of
             Inl err \<Rightarrow> (Some err, w)
           | Inr w' \<Rightarrow>
               (let inputFile = read_handle w' (Filename todo);
                    tokens = fst (scan_tokens (data inputFile) (read_err inputFile));
                    written =
                      rewrite_lines (write_fault w' outputFilename) lineCallback 1 0 tokens;
                    kept = kept_after_Close w' outputFilename written
                in (None, w'\<lparr>files := (files w')(outputFilename \<mapsto>
                                 \<lparr>data = kept, read_err = EOF\<rparr>)\<rparr>))))"

text \<open>\<open>func (todo Todo) updateInPlace(lineCallback ...) error\<close>\<close>

definition updateInPlace ::
  "Todo \<Rightarrow> (int \<Rightarrow> string \<Rightarrow> string \<times> bool) \<Rightarrow> world \<Rightarrow> error option \<times> world" where
  "updateInPlace todo lineCallback w =
     (let outputFilename = Filename todo @ ''.snitch'' in
      case updateToFile todo outputFilename lineCallback w of
        (Some err, w') \<Rightarrow> (Some err, w')
      | (None, w') \<Rightarrow> os_Rename w' outputFilename (Filename todo))"

text \<open>\<open>func (todo Todo) Update() error\<close>\<close>

definition Update :: "Todo \<Rightarrow> world \<Rightarrow> error option \<times> world" where
  "Update todo w =
     updateInPlace todo
       (\<lambda>lineNumber line. if lineNumber = Line todo then (String todo, False) else (line, False)) w"

text \<open>\<open>func (todo Todo) Remove() error\<close>\<close>

definition Remove :: "Todo \<Rightarrow> world \<Rightarrow> error option \<times> world" where
  "Remove todo w =
     updateInPlace todo
       (\<lambda>lineNumber line. if lineNumber = Line todo then ([], True) else (line, False)) w"

section \<open>The tree walker\<close>

text \<open>
  The visitor \<open>visit func(Todo) error\<close> is a closure; what it keeps between calls
  (the list it appends to, what it has printed) is a state of type \<open>'s\<close> passed
  through. The loop of \<open>WalkTodosOfFile\<close> over the texts of \<open>ReadLine\<close>, \<open>line\<close>
  being the number of the first of them:
\<close>

fun visit_lines ::
  "ProjectConfig \<Rightarrow> string \<Rightarrow> (Todo \<Rightarrow> 's \<Rightarrow> error option \<times> 's) \<Rightarrow> int \<Rightarrow> string list \<Rightarrow> 's
     \<Rightarrow> error option \<times> 's" where
  "visit_lines projectConfig path visit line [] st = (None, st)"
| "visit_lines projectConfig path visit line (text # rest) st =
     (case LineAsTodo projectConfig text of
        None \<Rightarrow> visit_lines projectConfig path visit (line + 1) rest st
      | Some todo \<Rightarrow>
          (case visit (todo\<lparr>Filename := path, Line := line\<rparr>) st of
             (Some err, st') \<Rightarrow> (Some err, st')
           | (None, st') \<Rightarrow> visit_lines projectConfig path visit (line + 1) rest st'))"

text \<open>\<open>func WalkTodosOfFile(projectConfig ProjectConfig, path string, visit ...) error\<close>\<close>

definition WalkTodosOfFile ::
  "ProjectConfig \<Rightarrow> string \<Rightarrow> (Todo \<Rightarrow> 's \<Rightarrow> error option \<times> 's) \<Rightarrow> world \<Rightarrow> 's
     \<Rightarrow> error option \<times> 's" where
  "WalkTodosOfFile projectConfig path visit w st =
     (case os_Open w path of
        Some err \<Rightarrow> (Some err, st)
      | None \<Rightarrow>
          (let f = read_handle w path in
           case visit_lines projectConfig path visit 1 (read_lines (data f)) st of
             (Some err, st') \<Rightarrow> (Some err, st')
           | (None, st') \<Rightarrow> (if read_err f \<noteq> EOF then Some (read_err f) else None, st')))"

text \<open>The loop of \<open>WalkTodosOfDir\<close> over the paths listed by \<^verbatim>\<open>git ls-files\<close>.\<close>

fun walk_files ::
  "ProjectConfig \<Rightarrow> (Todo \<Rightarrow> 's \<Rightarrow> error option \<times> 's) \<Rightarrow> world \<Rightarrow> string list \<Rightarrow> 's
     \<Rightarrow> error option \<times> 's" where
  "walk_files projectConfig visit w [] st = (None, st)"
| "walk_files projectConfig visit w (filepath # rest) st =
     (case WalkTodosOfFile projectConfig filepath visit w st of
        (Some err, st') \<Rightarrow> (Some err, st')
      | (None, st') \<Rightarrow> walk_files projectConfig visit w rest st')"

text \<open>
  \<open>func WalkTodosOfDir(projectConfig ProjectConfig, dirpath string, visit ...) error\<close>.
  The paths are the lines a \<open>Scanner\<close> finds in the output of \<^verbatim>\<open>git ls-files\<close>,
  an in-memory buffer that ends with \<open>io.EOF\<close>.
\<close>

definition WalkTodosOfDir ::
  "ProjectConfig \<Rightarrow> string \<Rightarrow> (Todo \<Rightarrow> 's \<Rightarrow> error option \<times> 's) \<Rightarrow> world \<Rightarrow> 's
     \<Rightarrow> error option \<times> 's" where
  "WalkTodosOfDir projectConfig dirpath visit w st =
     (case git_ls_files w dirpath of
        Inl err \<Rightarrow> (Some err, st)
      | Inr outb \<Rightarrow> walk_files projectConfig visit w (fst (scan_tokens outb EOF)) st)"

section \<open>Notions of the specification\<close>

text \<open>
  The languages of the two patterns, stated without the matcher. A line has the
  unreported shape \<^verbatim>\<open>^(.*)TODO: (.*)$\<close> when it has no newline and contains
  \<^verbatim>\<open>TODO: \<close>; it has the reported shape \<^verbatim>\<open>^(.*)TODO\((.*)\): (.*)$\<close> when it
  has no newline and contains \<^verbatim>\<open>TODO(\<close> with \<^verbatim>\<open>): \<close> somewhere after it.
\<close>

definition unreported_shape :: "string \<Rightarrow> bool" where
  "unreported_shape line \<longleftrightarrow> newline \<notin> set line \<and> sublist ''TODO: '' line"

fun marker_then_colon :: "string \<Rightarrow> bool" where
  "marker_then_colon [] = False"
| "marker_then_colon (c # cs) =
     (take 5 (c # cs) = ''TODO('' \<and> sublist ''): '' (drop 5 (c # cs)) \<or> marker_then_colon cs)"

definition reported_shape :: "string \<Rightarrow> bool" where
  "reported_shape line \<longleftrightarrow> newline \<notin> set line \<and> marker_then_colon line"

text \<open>
  Round trip through the canonical form: parsing \<open>String todo\<close> gives a Todo with the
  prefix, suffix and identifier of \<open>todo\<close>.
\<close>

definition round_trips :: "ProjectConfig \<Rightarrow> Todo \<Rightarrow> bool" where
  "round_trips cfg todo =
     (case LineAsTodo cfg (String todo) of
        None \<Rightarrow> False
      | Some todo' \<Rightarrow>
          Prefix todo' = Prefix todo \<and> Suffix todo' = Suffix todo \<and> ID todo' = ID todo)"

text \<open>
  The Todos whose canonical form is read back as written: no newline anywhere, no
  second \<^verbatim>\<open>TODO: \<close> after the marker of an unreported Todo; for a reported Todo no
  \<^verbatim>\<open>TODO: \<close> at all in the canonical form, no \<^verbatim>\<open>TODO(\<close> in the identifier and no
  \<^verbatim>\<open>): \<close> in the suffix.
\<close>

definition round_trip_safe :: "Todo \<Rightarrow> bool" where
  "round_trip_safe todo =
     (newline \<notin> set (String todo) \<and>
      (case ID todo of
         None \<Rightarrow> \<not> sublist ''TODO: '' (Suffix todo)
       | Some i \<Rightarrow>
           \<not> sublist ''TODO: '' (String todo) \<and> \<not> sublist ''TODO('' i \<and>
           \<not> sublist ''): '' (Suffix todo)))"

text \<open>The bytes of a file made of the given lines, each ended by a newline.\<close>

definition join_lines :: "string list \<Rightarrow> string" where
  "join_lines ls = concat (map (\<lambda>l. l @ [newline]) ls)"

text \<open>A text with a newline added at its end when it is not empty and lacks one.\<close>

definition with_final_newline :: "string \<Rightarrow> string" where
  "with_final_newline bs = (if bs = [] \<or> last bs = newline then bs else bs @ [newline])"

text \<open>A text without the newlines at its end.\<close>

definition without_final_newlines :: "string \<Rightarrow> string" where
  "without_final_newlines bs = rev (dropWhile (\<lambda>c. c = newline) (rev bs))"

text \<open>The identity transform: every line is kept as it is.\<close>

definition keep_line :: "int \<Rightarrow> string \<Rightarrow> string \<times> bool" where
  "keep_line lineNumber line = (line, False)"

text \<open>
  A world in which no system call is refused and no write fails, holding the given
  files.
\<close>

definition plain_world :: "(string \<rightharpoonup> File) \<Rightarrow> world" where
  "plain_world fs =
     \<lparr>files = fs, open_err = (\<lambda>name. None), create_err = (\<lambda>name. None),
      rename_err = (\<lambda>oldpath newpath. None), write_fault = (\<lambda>name i. None),
      close_fault = (\<lambda>name. None), git_ls_files = (\<lambda>dirpath. Inr [])\<rparr>"

text \<open>
  The same on a disk that is full after \<open>m\<close> writes to a new file: the first \<open>m\<close>
  writes succeed and every later write fails without writing a byte.
\<close>

definition full_disk_world :: "nat \<Rightarrow> (string \<rightharpoonup> File) \<Rightarrow> world" where
  "full_disk_world m fs =
     \<lparr>files = fs, open_err = (\<lambda>name. None), create_err = (\<lambda>name. None),
      rename_err = (\<lambda>oldpath newpath. None),
      write_fault = (\<lambda>name i. if i < m then None else Some 0),
      close_fault = (\<lambda>name. None), git_ls_files = (\<lambda>dirpath. Inr [])\<rparr>"

text \<open>
  The lines of a text: its pieces between newlines, a last piece without newline
  counting when it is not empty. A carriage return before a newline belongs to the
  line.
\<close>

function split_lines :: "string \<Rightarrow> string list" where
  "split_lines bs =
     (if bs = [] then []
      else
        let l = takeWhile (\<lambda>c. c \<noteq> newline) bs in
        l # split_lines (drop (Suc (length l)) bs))"
  by pat_completeness auto
termination
  by (relation "measure length") auto

section \<open>Example visitors and an example tree\<close>

text \<open>
  Two visitors in the style of the closures of \<open>main.go\<close>: \<open>collect\<close> appends every
  Todo to a list and never fails; \<open>collect_until_reported\<close> appends unreported Todos
  and fails on the first reported one, with the identifier as the message.
\<close>

definition collect :: "Todo \<Rightarrow> Todo list \<Rightarrow> error option \<times> Todo list" where
  "collect todo st = (None, st @ [todo])"

definition collect_until_reported :: "Todo \<Rightarrow> Todo list \<Rightarrow> error option \<times> Todo list" where
  "collect_until_reported todo st =
     (case ID todo of None \<Rightarrow> (None, st @ [todo]) | Some i \<Rightarrow> (Some (ErrOther i), st))"

text \<open>
  A tree of three directories. In \<^verbatim>\<open>src\<close> the tracked file \<^verbatim>\<open>src/m.go\<close> is
  missing from the working tree; \<^verbatim>\<open>lib/a.go\<close> holds a reported Todo between two
  unreported ones; reading \<^verbatim>\<open>doc/a.go\<close> fails after its first line.
\<close>

definition example_tree :: world where
  "example_tree =
     \<lparr>files =
        [''src/a.go'' \<mapsto> \<lparr>data = ''// TODO: first'' @ [newline], read_err = EOF\<rparr>,
         ''src/z.go'' \<mapsto> \<lparr>data = ''// TODO: last'' @ [newline], read_err = EOF\<rparr>,
         ''lib/a.go'' \<mapsto>
           \<lparr>data = ''// TODO: one'' @ newline # ''// TODO(#7): two'' @ newline #
                    ''// TODO: three'' @ [newline],
            read_err = EOF\<rparr>,
         ''lib/z.go'' \<mapsto> \<lparr>data = ''// TODO: last'' @ [newline], read_err = EOF\<rparr>,
         ''doc/a.go'' \<mapsto>
           \<lparr>data = ''// TODO: first'' @ [newline],
            read_err = ErrOther ''input/output error''\<rparr>,
         ''doc/z.go'' \<mapsto> \<lparr>data = ''// TODO: last'' @ [newline], read_err = EOF\<rparr>],
      open_err = (\<lambda>name. None),
      create_err = (\<lambda>name. None),
      rename_err = (\<lambda>oldpath newpath. None),
      write_fault = (\<lambda>name i. None),
      close_fault = (\<lambda>name. None),
      git_ls_files = (\<lambda>dirpath.
        if dirpath = ''src''
        then Inr (''src/a.go'' @ newline # ''src/m.go'' @ newline # ''src/z.go'' @ [newline])
        else if dirpath = ''lib'' then Inr (''lib/a.go'' @ newline # ''lib/z.go'' @ [newline])
        else if dirpath = ''doc'' then Inr (''doc/a.go'' @ newline # ''doc/z.go'' @ [newline])
        else Inl (ErrOther ''exit status 128''))\<rparr>"

section \<open>Properties of the regular-expression matcher\<close>

lemma greedy_Some_iff:
  "greedy f k = Some r \<longleftrightarrow> (\<exists>n\<le>k. f n = Some r \<and> (\<forall>m. n < m \<and> m \<le> k \<longrightarrow> f m = None))"
proof (induction k)
  case 0
  then show ?case by auto
next
  case (Suc k)
  show ?case
  proof (cases "f (Suc k)")
    case None
    then have "greedy f (Suc k) = greedy f k" by simp
    also have "\<dots> = Some r \<longleftrightarrow> (\<exists>n\<le>k. f n = Some r \<and> (\<forall>m. n < m \<and> m \<le> k \<longrightarrow> f m = None))"
      by (rule Suc.IH)
    also have "\<dots> \<longleftrightarrow> (\<exists>n\<le>Suc k. f n = Some r \<and> (\<forall>m. n < m \<and> m \<le> Suc k \<longrightarrow> f m = None))"
      using None by (metis le_Suc_eq option.distinct(1))
    finally show ?thesis .
  next
    case (Some a)
    have "(\<exists>n\<le>Suc k. f n = Some r \<and> (\<forall>m. n < m \<and> m \<le> Suc k \<longrightarrow> f m = None)) \<longleftrightarrow> a = r"
    proof
      assume "\<exists>n\<le>Suc k. f n = Some r \<and> (\<forall>m. n < m \<and> m \<le> Suc k \<longrightarrow> f m = None)"
      then obtain n where n: "n \<le> Suc k" "f n = Some r" "\<forall>m. n < m \<and> m \<le> Suc k \<longrightarrow> f m = None"
        by blast
      have "n = Suc k"
      proof (rule ccontr)
        assume "n \<noteq> Suc k"
        with n(1) have "n < Suc k" by simp
        with n(3) have "f (Suc k) = None" by simp
        with Some show False by simp
      qed
      with n(2) Some show "a = r" by simp
    next
      assume "a = r"
      with Some have "f (Suc k) = Some r \<and> (\<forall>m. Suc k < m \<and> m \<le> Suc k \<longrightarrow> f m = None)" by auto
      then show "\<exists>n\<le>Suc k. f n = Some r \<and> (\<forall>m. n < m \<and> m \<le> Suc k \<longrightarrow> f m = None)"
        by blast
    qed
    with Some show ?thesis by simp
  qed
qed


lemma greedy_None_iff: "greedy f k = None \<longleftrightarrow> (\<forall>n\<le>k. f n = None)"
  by (induction k) (auto simp: le_Suc_eq split: option.splits)

lemma dot_span_le: "dot_span s \<le> length s"
  by (simp add: dot_span_def length_takeWhile_le)

lemma length_takeWhile_full:
  "length (takeWhile P s) = length s \<longleftrightarrow> (\<forall>x\<in>set s. P x)"
proof (induction s)
  case Nil
  show ?case by simp
next
  case (Cons a s)
  show ?case
  proof (cases "P a")
    case True
    with Cons show ?thesis by simp
  next
    case False
    then show ?thesis by auto
  qed
qed

lemma dot_span_full: "dot_span s = length s \<longleftrightarrow> newline \<notin> set s"
  unfolding dot_span_def length_takeWhile_full by blast

lemma occurs_iff_sublist:
  "sublist t s \<longleftrightarrow> (\<exists>m. take (length t) (drop m s) = t)"
proof
  assume "sublist t s"
  then obtain ps ss where "s = ps @ t @ ss" by (auto simp: sublist_def)
  then have "take (length t) (drop (length ps) s) = t" by simp
  then show "\<exists>m. take (length t) (drop m s) = t" ..
next
  assume "\<exists>m. take (length t) (drop m s) = t"
  then obtain m where m: "take (length t) (drop m s) = t" ..
  have "s = take m s @ take (length t) (drop m s) @ drop (length t) (drop m s)"
    by (metis append_take_drop_id)
  with m have "s = take m s @ t @ drop (length t) (drop m s)" by simp
  then show "sublist t s" unfolding sublist_def by blast
qed

lemmas regex_match_Grp = regex_match.simps(3)

lemma regex_match_Grp_Some:
  "regex_match (Grp # p) s = Some gs \<longleftrightarrow>
     (\<exists>n\<le>dot_span s. \<exists>gs'. regex_match p (drop n s) = Some gs' \<and> gs = take n s # gs' \<and>
        (\<forall>m. n < m \<and> m \<le> dot_span s \<longrightarrow> regex_match p (drop m s) = None))"
  unfolding regex_match_Grp greedy_Some_iff by auto

lemma regex_match_Grp_None:
  "regex_match (Grp # p) s = None \<longleftrightarrow> (\<forall>n\<le>dot_span s. regex_match p (drop n s) = None)"
  unfolding regex_match_Grp greedy_None_iff by simp

declare regex_match.simps(3) [simp del]

lemma regex_match_Grp_only [simp]:
  "regex_match [Grp] s = (if newline \<notin> set s then Some [s] else None)"
proof (cases "newline \<in> set s")
  case True
  then have "dot_span s < length s"
    using dot_span_le [of s] dot_span_full [of s] by simp
  then have "\<forall>n\<le>dot_span s. regex_match [] (drop n s) = None" by simp
  then have "regex_match [Grp] s = None" by (simp only: regex_match_Grp_None)
  with True show ?thesis by simp
next
  case False
  then have k: "dot_span s = length s" by (simp add: dot_span_full)
  have "regex_match [Grp] s = Some [s]"
    unfolding regex_match_Grp_Some k
    by (rule exI [of _ "length s"]) simp
  with False show ?thesis by simp
qed

lemma regex_match_Lit_Grp:
  "regex_match [Lit t, Grp] u =
     (if take (length t) u = t \<and> newline \<notin> set (drop (length t) u)
      then Some [drop (length t) u] else None)"
  by simp

lemma regex_match_Lit_Grp_None:
  "take (length t) u \<noteq> t \<Longrightarrow> regex_match [Lit t, Grp] u = None"
  by simp

lemma dot_span_take: "n \<le> dot_span s \<Longrightarrow> newline \<notin> set (take n s)"
proof -
  assume "n \<le> dot_span s"
  then have "take n s = take n (takeWhile (\<lambda>c. c \<noteq> newline) s)"
    unfolding dot_span_def
    by (metis append_take_drop_id takeWhile_dropWhile_id take_append take_all_iff diff_is_0_eq' take_0 append_Nil2 append_eq_conv_conj)
  moreover have "newline \<notin> set (takeWhile (\<lambda>c. c \<noteq> newline) s)"
    by (auto dest: set_takeWhileD)
  ultimately show ?thesis
    by (metis in_set_takeD)
qed

text \<open>A literal between two groups: the split is at the last occurrence of the literal.\<close>

lemma split_match_sound:
  assumes m: "regex_match [Grp, Lit t, Grp] s = Some gs"
    and t: "newline \<notin> set t" "t \<noteq> []"
  shows "\<exists>p q. gs = [p, q] \<and> s = p @ t @ q \<and> newline \<notin> set s \<and>
           (\<forall>m. length p < m \<longrightarrow> take (length t) (drop m s) \<noteq> t)"
proof -
  from m obtain n gs' where n: "n \<le> dot_span s"
    and r: "regex_match [Lit t, Grp] (drop n s) = Some gs'"
    and gs: "gs = take n s # gs'"
    and mx: "\<forall>m. n < m \<and> m \<le> dot_span s \<longrightarrow> regex_match [Lit t, Grp] (drop m s) = None"
    unfolding regex_match_Grp_Some by blast
  from r have occ: "take (length t) (drop n s) = t"
    and nl: "newline \<notin> set (drop (length t) (drop n s))"
    and gs': "gs' = [drop (length t) (drop n s)]"
    by (auto simp: regex_match_Lit_Grp split: if_splits)
  define p where "p = take n s"
  define q where "q = drop (length t) (drop n s)"
  have "drop n s = t @ q"
    using occ unfolding q_def by (metis append_take_drop_id)
  then have s: "s = p @ t @ q"
    unfolding p_def by (metis append_take_drop_id)
  have nlp: "newline \<notin> set p" unfolding p_def using n by (rule dot_span_take)
  have "newline \<notin> set q" using nl unfolding q_def .
  with nlp t(1) have "newline \<notin> set (p @ t @ q)" by simp
  with s have nls: "newline \<notin> set s" by simp
  then have full: "dot_span s = length s" by (simp add: dot_span_full)
  have lp: "length p = n" unfolding p_def using n dot_span_le [of s] by simp
  have "take (length t) (drop m s) \<noteq> t" if "length p < m" for m
  proof
    assume o: "take (length t) (drop m s) = t"
    have "m \<le> length s"
    proof (rule ccontr)
      assume "\<not> m \<le> length s"
      then have "drop m s = []" by simp
      with o t(2) show False by simp
    qed
    with mx that lp full have "regex_match [Lit t, Grp] (drop m s) = None" by simp
    moreover have "newline \<notin> set (drop (length t) (drop m s))"
      using nls by (meson in_set_dropD)
    ultimately show False using o by (simp add: regex_match_Lit_Grp)
  qed
  with gs gs' s nls show ?thesis unfolding p_def q_def by blast
qed

lemma split_match_last:
  assumes "newline \<notin> set p" "newline \<notin> set t" "newline \<notin> set q"
    and later: "\<forall>m. length p < m \<longrightarrow> take (length t) (drop m (p @ t @ q)) \<noteq> t"
  shows "regex_match [Grp, Lit t, Grp] (p @ t @ q) = Some [p, q]"
proof -
  let ?s = "p @ t @ q"
  have "newline \<notin> set ?s" using assms by simp
  then have full: "dot_span ?s = length ?s" using dot_span_full by blast
  have a: "length p \<le> dot_span ?s" unfolding full by simp
  have b: "regex_match [Lit t, Grp] (drop (length p) ?s) = Some [q]"
    using assms(3) by (simp add: regex_match_Lit_Grp)
  have c: "\<forall>m. length p < m \<and> m \<le> dot_span ?s \<longrightarrow> regex_match [Lit t, Grp] (drop m ?s) = None"
    using later regex_match_Lit_Grp_None by blast
  show ?thesis
    unfolding regex_match_Grp_Some
    using a b c by (intro exI [of _ "length p"]) simp
qed

lemma split_match_None:
  assumes "newline \<notin> set t"
  shows "regex_match [Grp, Lit t, Grp] s = None \<longleftrightarrow> newline \<in> set s \<or> \<not> sublist t s"
proof
  assume none: "regex_match [Grp, Lit t, Grp] s = None"
  show "newline \<in> set s \<or> \<not> sublist t s"
  proof (rule ccontr)
    assume "\<not> (newline \<in> set s \<or> \<not> sublist t s)"
    then have nls: "newline \<notin> set s" and sub: "sublist t s" by auto
    from sub obtain ps ss where s: "s = ps @ t @ ss" by (auto simp: sublist_def)
    have full: "dot_span s = length s" using nls by (simp add: dot_span_full)
    have "length ps \<le> length s" by (simp add: s)
    then have "length ps \<le> dot_span s" by (simp only: full)
    with none have "regex_match [Lit t, Grp] (drop (length ps) s) = None"
      unfolding regex_match_Grp_None by blast
    moreover have "newline \<notin> set ss" using nls s by simp
    ultimately show False unfolding s by (simp add: regex_match_Lit_Grp)
  qed
next
  assume r: "newline \<in> set s \<or> \<not> sublist t s"
  have "regex_match [Lit t, Grp] (drop n s) = None" if n: "n \<le> dot_span s" for n
  proof (rule ccontr)
    assume "regex_match [Lit t, Grp] (drop n s) \<noteq> None"
    then have occ: "take (length t) (drop n s) = t"
      and nl: "newline \<notin> set (drop (length t) (drop n s))"
      by (auto simp: regex_match_Lit_Grp split: if_splits)
    have "drop n s = t @ drop (length t) (drop n s)"
      using occ by (metis append_take_drop_id)
    then have s: "s = take n s @ t @ drop (length t) (drop n s)"
      by (metis append_take_drop_id)
    then have "sublist t s" unfolding sublist_def by blast
    moreover have "newline \<notin> set s"
      using dot_span_take [OF n] assms nl
      by (subst s) simp
    ultimately show False using r by simp
  qed
  then show "regex_match [Grp, Lit t, Grp] s = None"
    unfolding regex_match_Grp_None by blast
qed

text \<open>A literal whose first character does not occur again in it cannot overlap itself.\<close>

lemma occurrence_after_literal:
  assumes t: "t \<noteq> []" "hd t \<notin> set (tl t)"
    and k: "0 < k"
    and occ: "take (length t) (drop k (t @ q)) = t"
  shows "length t \<le> k \<and> take (length t) (drop (k - length t) q) = t"
proof -
  have "length t \<le> k"
  proof (rule ccontr)
    assume "\<not> length t \<le> k"
    then have lt: "k < length t" by simp
    then have "drop k (t @ q) = drop k t @ q" by simp
    moreover have "drop k t \<noteq> []" using lt by simp
    ultimately have "hd (drop k (t @ q)) = hd (drop k t)" by simp
    also have "\<dots> = t ! k" using lt by (simp add: hd_drop_conv_nth)
    finally have a: "hd (drop k (t @ q)) = t ! k" .
    have "hd (take (length t) (drop k (t @ q))) = hd (drop k (t @ q))"
      using t(1) by (intro hd_take) simp
    with occ a have "hd t = t ! k" by simp
    moreover have "t ! k \<in> set (tl t)"
    proof -
      from k obtain k' where k': "k = Suc k'" by (cases k) auto
      with lt have "k' < length (tl t)" by simp
      then have "tl t ! k' \<in> set (tl t)" by (rule nth_mem)
      moreover have "tl t ! k' = t ! Suc k'" using \<open>k' < length (tl t)\<close> by (rule nth_tl)
      ultimately show ?thesis using k' by simp
    qed
    ultimately show False using t(2) by simp
  qed
  moreover from this have "drop k (t @ q) = drop (k - length t) q" by simp
  ultimately show ?thesis using occ by (simp only: simp_thms)
qed

lemma no_later_occurrence:
  assumes t: "t \<noteq> []" "hd t \<notin> set (tl t)"
    and q: "\<not> sublist t q"
  shows "\<forall>m. length p < m \<longrightarrow> take (length t) (drop m (p @ t @ q)) \<noteq> t"
proof (intro allI impI notI)
  fix m
  assume m: "length p < m" and occ: "take (length t) (drop m (p @ t @ q)) = t"
  from m have "drop m (p @ t @ q) = drop (m - length p) (t @ q)" by simp
  with occ have o: "take (length t) (drop (m - length p) (t @ q)) = t" by (simp only:)
  from m have "0 < m - length p" by simp
  from occurrence_after_literal [OF t this o]
  have "take (length t) (drop (m - length p - length t) q) = t" by blast
  then have "sublist t q" unfolding occurs_iff_sublist by blast
  with q show False ..
qed

lemma later_occurrence_sublist:
  assumes "\<forall>m. length p < m \<longrightarrow> take (length t) (drop m (p @ t @ q)) \<noteq> t" "t \<noteq> []"
  shows "\<not> sublist t q"
proof
  assume "sublist t q"
  then obtain x y where q: "q = x @ t @ y" by (auto simp: sublist_def)
  have "p @ t @ q = (p @ t @ x) @ t @ y" unfolding q by simp
  then have "drop (length (p @ t @ x)) (p @ t @ q) = t @ y"
    by (metis append_eq_conv_conj)
  then have "take (length t) (drop (length (p @ t @ x)) (p @ t @ q)) = t" by simp
  moreover have "length p < length (p @ t @ x)" using assms(2) by simp
  ultimately show False using assms(1) by blast
qed

section \<open>Properties of the line parser\<close>

lemma marker_literals:
  "newline \<notin> set ''TODO: ''" "''TODO: '' \<noteq> []" "hd ''TODO: '' \<notin> set (tl ''TODO: '')"
  "newline \<notin> set ''TODO(''" "''TODO('' \<noteq> []" "hd ''TODO('' \<notin> set (tl ''TODO('')"
  "newline \<notin> set ''): ''" "''): '' \<noteq> []" "hd ''): '' \<notin> set (tl ''): '')"
  by (simp_all add: newline_def)

lemma lineAsUnreportedTodo_Some:
  assumes "lineAsUnreportedTodo cfg line = Some todo"
  shows "line = Prefix todo @ ''TODO: '' @ Suffix todo \<and> newline \<notin> set line \<and>
         \<not> sublist ''TODO: '' (Suffix todo) \<and>
         todo = \<lparr>Prefix = Prefix todo, Suffix = Suffix todo, ID = None, Filename = [], Line = 0,
                 Title = Title_Transform cfg (Suffix todo)\<rparr>"
proof -
  from assms obtain gs where gs: "regex_match [Grp, Lit ''TODO: '', Grp] line = Some gs"
    unfolding lineAsUnreportedTodo_def unreportedTodo_regexp_def
    by (cases "regex_match [Grp, Lit ''TODO: '', Grp] line") auto
  from split_match_sound [OF gs marker_literals(1,2)]
  obtain p q where pq: "gs = [p, q]" "line = p @ ''TODO: '' @ q" "newline \<notin> set line"
    "\<forall>m. length p < m \<longrightarrow> take (length ''TODO: '') (drop m line) \<noteq> ''TODO: ''"
    by blast
  from pq(2,4) have "\<not> sublist ''TODO: '' q"
    using later_occurrence_sublist [of p "''TODO: ''" q] by blast
  moreover from assms gs pq(1)
  have "todo = \<lparr>Prefix = p, Suffix = q, ID = None, Filename = [], Line = 0,
                 Title = Title_Transform cfg q\<rparr>"
    unfolding lineAsUnreportedTodo_def unreportedTodo_regexp_def by simp
  ultimately show ?thesis using pq(2,3) by simp
qed

lemma lineAsUnreportedTodo_None:
  "lineAsUnreportedTodo cfg line = None \<longleftrightarrow> newline \<in> set line \<or> \<not> sublist ''TODO: '' line"
proof -
  have "lineAsUnreportedTodo cfg line = None \<longleftrightarrow>
          regex_match [Grp, Lit ''TODO: '', Grp] line = None"
  proof (cases "regex_match [Grp, Lit ''TODO: '', Grp] line")
    case None
    then show ?thesis
      unfolding lineAsUnreportedTodo_def unreportedTodo_regexp_def by simp
  next
    case (Some gs)
    from split_match_sound [OF Some marker_literals(1,2)]
    obtain p q where "gs = [p, q]" by blast
    with Some show ?thesis
      unfolding lineAsUnreportedTodo_def unreportedTodo_regexp_def by simp
  qed
  then show ?thesis
    using split_match_None [OF marker_literals(1)] by simp
qed

lemma lineAsUnreportedTodo_canonical:
  assumes "newline \<notin> set p" "newline \<notin> set q" "\<not> sublist ''TODO: '' q"
  shows "lineAsUnreportedTodo cfg (p @ ''TODO: '' @ q) =
           Some \<lparr>Prefix = p, Suffix = q, ID = None, Filename = [], Line = 0,
                 Title = Title_Transform cfg q\<rparr>"
proof -
  have "regex_match [Grp, Lit ''TODO: '', Grp] (p @ ''TODO: '' @ q) = Some [p, q]"
    using assms(1) marker_literals(1) assms(2)
      no_later_occurrence [OF marker_literals(2,3) assms(3)]
    by (rule split_match_last)
  then show ?thesis
    unfolding lineAsUnreportedTodo_def unreportedTodo_regexp_def by simp
qed

lemma marker_then_colon_iff:
  "marker_then_colon s \<longleftrightarrow> (\<exists>p i q. s = p @ ''TODO('' @ i @ ''): '' @ q)"
proof (induction s)
  case Nil
  show ?case by simp
next
  case (Cons c cs)
  show ?case
  proof
    assume "marker_then_colon (c # cs)"
    then consider "take 5 (c # cs) = ''TODO(''" "sublist ''): '' (drop 5 (c # cs))"
      | "marker_then_colon cs" by auto
    then show "\<exists>p i q. c # cs = p @ ''TODO('' @ i @ ''): '' @ q"
    proof cases
      case 1
      from 1(2) obtain i q where "drop 5 (c # cs) = i @ ''): '' @ q"
        unfolding sublist_def by blast
      with 1(1) have "c # cs = [] @ ''TODO('' @ i @ ''): '' @ q"
        by (metis append_Nil append_take_drop_id)
      then show ?thesis by blast
    next
      case 2
      with Cons obtain p i q where "cs = p @ ''TODO('' @ i @ ''): '' @ q" by blast
      then have "c # cs = (c # p) @ ''TODO('' @ i @ ''): '' @ q" by simp
      then show ?thesis by blast
    qed
  next
    assume "\<exists>p i q. c # cs = p @ ''TODO('' @ i @ ''): '' @ q"
    then obtain p i q where e: "c # cs = p @ ''TODO('' @ i @ ''): '' @ q" by blast
    show "marker_then_colon (c # cs)"
    proof (cases p)
      case Nil
      with e have "c # cs = ''TODO('' @ i @ ''): '' @ q" by simp
      then have "take 5 (c # cs) = ''TODO(''" "drop 5 (c # cs) = i @ ''): '' @ q"
        by simp_all
      then show ?thesis by (simp del: take_Suc_Cons drop_Suc_Cons add: sublist_def) blast
    next
      case (Cons a p')
      with e have "cs = p' @ ''TODO('' @ i @ ''): '' @ q" by simp
      with Cons.IH have "marker_then_colon cs" by blast
      then show ?thesis by simp
    qed
  qed
qed

text \<open>Two literals between three groups.\<close>

lemma regex_match_Lit:
  "regex_match (Lit l # p) (l @ u) = regex_match p u"
  by simp

lemma reported_match_sound:
  assumes m: "regex_match [Grp, Lit a, Grp, Lit b, Grp] s = Some gs"
    and a: "newline \<notin> set a" "a \<noteq> []"
    and b: "newline \<notin> set b" "b \<noteq> []"
  shows "\<exists>p i q. gs = [p, i, q] \<and> s = p @ a @ i @ b @ q \<and> newline \<notin> set s \<and>
           \<not> sublist a i \<and> \<not> sublist b q"
proof -
  from m obtain n gs' where n: "n \<le> dot_span s"
    and r: "regex_match [Lit a, Grp, Lit b, Grp] (drop n s) = Some gs'"
    and gs: "gs = take n s # gs'"
    and mx: "\<forall>m. n < m \<and> m \<le> dot_span s \<longrightarrow>
               regex_match [Lit a, Grp, Lit b, Grp] (drop m s) = None"
    unfolding regex_match_Grp_Some by blast
  from r have occ: "take (length a) (drop n s) = a"
    and r': "regex_match [Grp, Lit b, Grp] (drop (length a) (drop n s)) = Some gs'"
    by (auto split: if_splits)
  from split_match_sound [OF r' b]
  obtain i q where iq: "gs' = [i, q]" "drop (length a) (drop n s) = i @ b @ q"
    "newline \<notin> set (drop (length a) (drop n s))"
    "\<forall>m. length i < m \<longrightarrow> take (length b) (drop m (drop (length a) (drop n s))) \<noteq> b"
    by blast
  define p where "p = take n s"
  have "drop n s = a @ i @ b @ q"
    using occ iq(2) by (metis append_take_drop_id)
  then have s: "s = p @ a @ i @ b @ q"
    unfolding p_def by (metis append_take_drop_id)
  have nlp: "newline \<notin> set p" unfolding p_def using n by (rule dot_span_take)
  have "newline \<notin> set (i @ b @ q)" using iq(2,3) by simp
  with nlp a(1) have "newline \<notin> set (p @ a @ i @ b @ q)" by simp
  with s have nls: "newline \<notin> set s" by simp
  then have full: "dot_span s = length s" by (simp add: dot_span_full)
  have lp: "length p = n" unfolding p_def using n dot_span_le [of s] by simp
  have nb: "\<not> sublist b q"
    using iq(4) b(2) unfolding iq(2) by (rule later_occurrence_sublist)
  have na: "\<not> sublist a i"
  proof
    assume "sublist a i"
    then obtain x y where i: "i = x @ a @ y" by (auto simp: sublist_def)
    let ?m = "length (p @ a @ x)"
    have "s = (p @ a @ x) @ a @ y @ b @ q" unfolding s i by simp
    then have d: "drop ?m s = a @ y @ b @ q" by (metis append_eq_conv_conj)
    have "n < ?m" using lp a(2) by simp
    moreover have "?m \<le> length s" unfolding s i by simp
    ultimately have "regex_match [Lit a, Grp, Lit b, Grp] (drop ?m s) = None"
      using mx full by simp
    then have "regex_match [Grp, Lit b, Grp] (y @ b @ q) = None"
      unfolding d regex_match_Lit .
    moreover have "newline \<notin> set (y @ b @ q)" using nls unfolding s i by simp
    moreover have "sublist b (y @ b @ q)" by simp
    ultimately show False using split_match_None [OF b(1)] by blast
  qed
  from gs iq(1) s nls na nb show ?thesis unfolding p_def by blast
qed

lemma reported_match_None:
  assumes a: "newline \<notin> set a" "a \<noteq> []"
    and b: "newline \<notin> set b" "b \<noteq> []"
  shows "regex_match [Grp, Lit a, Grp, Lit b, Grp] s = None \<longleftrightarrow>
           newline \<in> set s \<or> \<not> (\<exists>p i q. s = p @ a @ i @ b @ q)"
proof
  assume none: "regex_match [Grp, Lit a, Grp, Lit b, Grp] s = None"
  show "newline \<in> set s \<or> \<not> (\<exists>p i q. s = p @ a @ i @ b @ q)"
  proof (rule ccontr)
    assume "\<not> (newline \<in> set s \<or> \<not> (\<exists>p i q. s = p @ a @ i @ b @ q))"
    then obtain p i q where nls: "newline \<notin> set s" and s: "s = p @ a @ i @ b @ q" by blast
    have full: "dot_span s = length s" using nls by (simp add: dot_span_full)
    have "length p \<le> length s" by (simp add: s)
    then have "length p \<le> dot_span s" by (simp only: full)
    with none have "regex_match [Lit a, Grp, Lit b, Grp] (drop (length p) s) = None"
      unfolding regex_match_Grp_None by blast
    moreover have "drop (length p) s = a @ i @ b @ q" unfolding s by simp
    ultimately have "regex_match [Grp, Lit b, Grp] (i @ b @ q) = None"
      by (simp only: regex_match_Lit)
    moreover have "newline \<notin> set (i @ b @ q)" using nls unfolding s by simp
    moreover have "sublist b (i @ b @ q)" by simp
    ultimately show False using split_match_None [OF b(1)] by blast
  qed
next
  assume r: "newline \<in> set s \<or> \<not> (\<exists>p i q. s = p @ a @ i @ b @ q)"
  show "regex_match [Grp, Lit a, Grp, Lit b, Grp] s = None"
  proof (rule ccontr)
    assume "regex_match [Grp, Lit a, Grp, Lit b, Grp] s \<noteq> None"
    then obtain gs where "regex_match [Grp, Lit a, Grp, Lit b, Grp] s = Some gs" by blast
    from reported_match_sound [OF this a b] r show False by blast
  qed
qed

lemma drop_append_ge: "length xs \<le> n \<Longrightarrow> drop n (xs @ ys) = drop (n - length xs) ys"
  by simp

lemma reported_match_canonical:
  assumes nl: "newline \<notin> set p" "newline \<notin> set i" "newline \<notin> set q"
    and a: "newline \<notin> set a" "a \<noteq> []" "hd a \<notin> set (tl a)"
    and b: "newline \<notin> set b" "b \<noteq> []" "hd b \<notin> set (tl b)"
    and na: "\<not> sublist a i" and nb: "\<not> sublist b q"
  shows "regex_match [Grp, Lit a, Grp, Lit b, Grp] (p @ a @ i @ b @ q) = Some [p, i, q]"
proof -
  let ?s = "p @ a @ i @ b @ q"
  have "newline \<notin> set ?s" using nl a(1) b(1) by simp
  then have full: "dot_span ?s = length ?s" using dot_span_full by blast
  have le: "length p \<le> dot_span ?s" unfolding full by simp
  have inner: "regex_match [Grp, Lit b, Grp] (i @ b @ q) = Some [i, q]"
    using nl(2) b(1) nl(3) no_later_occurrence [OF b(2,3) nb]
    by (rule split_match_last)
  have "drop (length p) ?s = a @ i @ b @ q" by simp
  then have here: "regex_match [Lit a, Grp, Lit b, Grp] (drop (length p) ?s) = Some [i, q]"
    using inner by (simp only: regex_match_Lit)
  have later: "regex_match [Lit a, Grp, Lit b, Grp] (drop m ?s) = None"
    if m: "length p < m" for m
  proof (rule ccontr)
    assume "regex_match [Lit a, Grp, Lit b, Grp] (drop m ?s) \<noteq> None"
    then have occ: "take (length a) (drop m ?s) = a"
      and r: "regex_match [Grp, Lit b, Grp] (drop (length a) (drop m ?s)) \<noteq> None"
      by (auto split: if_splits)
    have sb: "sublist b (drop (length a) (drop m ?s))"
    proof (rule ccontr)
      assume "\<not> sublist b (drop (length a) (drop m ?s))"
      then have "regex_match [Grp, Lit b, Grp] (drop (length a) (drop m ?s)) = None"
        by (simp only: split_match_None [OF b(1)] simp_thms)
      with r show False ..
    qed
    define k where "k = m - length p"
    have k: "0 < k" unfolding k_def using m by simp
    have dm: "drop m ?s = drop k (a @ i @ b @ q)" unfolding k_def using m by simp
    with occ have "take (length a) (drop k (a @ (i @ b @ q))) = a" by (simp only:)
    from occurrence_after_literal [OF a(2,3) k this]
    have ka: "length a \<le> k" and occ': "take (length a) (drop (k - length a) (i @ b @ q)) = a"
      by blast+
    define k' where "k' = k - length a"
    have dk: "drop k (a @ i @ b @ q) = drop k' (i @ b @ q)"
      unfolding k'_def using ka by simp
    show False
    proof (cases "k' + length a \<le> length i")
      case True
      then have "take (length a) (drop k' (i @ b @ q)) = take (length a) (drop k' i)"
        by simp
      with occ' have "take (length a) (drop k' i) = a" unfolding k'_def by simp
      then have "sublist a i" unfolding occurs_iff_sublist by blast
      with na show False ..
    next
      case False
      define j where "j = k' + length a - length i"
      have j: "0 < j" unfolding j_def using False by simp
      have "drop (length a) (drop m ?s) = drop (length a) (drop k' (i @ b @ q))"
        unfolding dm dk ..
      also have "\<dots> = drop (k' + length a) (i @ b @ q)"
        by (simp only: drop_drop add.commute)
      also have "\<dots> = drop j (b @ q)"
        unfolding j_def using False by (intro drop_append_ge) simp
      finally have "sublist b (drop j (b @ q))" using sb by (simp only:)
      then obtain e where "take (length b) (drop e (drop j (b @ q))) = b"
        unfolding occurs_iff_sublist by blast
      then have o: "take (length b) (drop (e + j) (b @ q)) = b" by (simp only: drop_drop)
      have "0 < e + j" using j by simp
      from occurrence_after_literal [OF b(2,3) this o]
      have "take (length b) (drop (e + j - length b) q) = b" by (rule conjunct2)
      then have "sublist b q" unfolding occurs_iff_sublist by blast
      with nb show False ..
    qed
  qed
  show ?thesis
    unfolding regex_match_Grp_Some
  proof (intro exI [of _ "length p"] exI [of _ "[i, q]"] conjI allI impI)
    show "length p \<le> dot_span ?s" by (rule le)
    show "regex_match [Lit a, Grp, Lit b, Grp] (drop (length p) ?s) = Some [i, q]"
      by (rule here)
    show "[p, i, q] = take (length p) ?s # [i, q]" by simp
    fix m
    assume "length p < m \<and> m \<le> dot_span ?s"
    then show "regex_match [Lit a, Grp, Lit b, Grp] (drop m ?s) = None"
      using later by blast
  qed
qed

lemma lineAsReportedTodo_Some:
  assumes "lineAsReportedTodo cfg line = Some todo"
  shows "\<exists>i. line = Prefix todo @ ''TODO('' @ i @ ''): '' @ Suffix todo \<and>
           newline \<notin> set line \<and> \<not> sublist ''TODO('' i \<and> \<not> sublist ''): '' (Suffix todo) \<and>
           todo = \<lparr>Prefix = Prefix todo, Suffix = Suffix todo, ID = Some i, Filename = [],
                   Line = 0, Title = Title_Transform cfg (Suffix todo)\<rparr>"
proof -
  from assms obtain gs
    where gs: "regex_match [Grp, Lit ''TODO('', Grp, Lit ''): '', Grp] line = Some gs"
    unfolding lineAsReportedTodo_def reportedTodo_regexp_def
    by (cases "regex_match [Grp, Lit ''TODO('', Grp, Lit ''): '', Grp] line") auto
  from reported_match_sound [OF gs marker_literals(4,5,7,8)]
  obtain p i q where piq: "gs = [p, i, q]" "line = p @ ''TODO('' @ i @ ''): '' @ q"
    "newline \<notin> set line" "\<not> sublist ''TODO('' i" "\<not> sublist ''): '' q"
    by blast
  from assms gs piq(1)
  have "todo = \<lparr>Prefix = p, Suffix = q, ID = Some i, Filename = [], Line = 0,
                 Title = Title_Transform cfg q\<rparr>"
    unfolding lineAsReportedTodo_def reportedTodo_regexp_def by simp
  with piq(2-5) show ?thesis by simp
qed

lemma lineAsReportedTodo_None:
  "lineAsReportedTodo cfg line = None \<longleftrightarrow> \<not> reported_shape line"
proof -
  have "lineAsReportedTodo cfg line = None \<longleftrightarrow>
          regex_match [Grp, Lit ''TODO('', Grp, Lit ''): '', Grp] line = None"
  proof (cases "regex_match [Grp, Lit ''TODO('', Grp, Lit ''): '', Grp] line")
    case None
    then show ?thesis
      unfolding lineAsReportedTodo_def reportedTodo_regexp_def by simp
  next
    case (Some gs)
    from reported_match_sound [OF Some marker_literals(4,5,7,8)]
    obtain p i q where "gs = [p, i, q]" by blast
    with Some show ?thesis
      unfolding lineAsReportedTodo_def reportedTodo_regexp_def by simp
  qed
  then show ?thesis
    unfolding reported_match_None [OF marker_literals(4,5,7,8)] reported_shape_def
      marker_then_colon_iff by blast
qed

lemma lineAsReportedTodo_canonical:
  assumes "newline \<notin> set p" "newline \<notin> set i" "newline \<notin> set q"
    and "\<not> sublist ''TODO('' i" "\<not> sublist ''): '' q"
  shows "lineAsReportedTodo cfg (p @ ''TODO('' @ i @ ''): '' @ q) =
           Some \<lparr>Prefix = p, Suffix = q, ID = Some i, Filename = [], Line = 0,
                 Title = Title_Transform cfg q\<rparr>"
proof -
  have "regex_match [Grp, Lit ''TODO('', Grp, Lit ''): '', Grp]
          (p @ ''TODO('' @ i @ ''): '' @ q) = Some [p, i, q]"
    using assms(1-3) marker_literals(4-9) assms(4,5)
    by (rule reported_match_canonical)
  then show ?thesis
    unfolding lineAsReportedTodo_def reportedTodo_regexp_def by simp
qed

lemma lineAsUnreportedTodo_None_shape:
  "lineAsUnreportedTodo cfg line = None \<longleftrightarrow> \<not> unreported_shape line"
  unfolding lineAsUnreportedTodo_None unreported_shape_def by blast

lemma LineAsTodo_unreported:
  "lineAsUnreportedTodo cfg line = Some todo \<Longrightarrow> LineAsTodo cfg line = Some todo"
  by (simp add: LineAsTodo_def)

lemma LineAsTodo_reported:
  "lineAsUnreportedTodo cfg line = None \<Longrightarrow> LineAsTodo cfg line = lineAsReportedTodo cfg line"
  by (simp add: LineAsTodo_def split: option.splits)

lemma String_unreported:
  "ID todo = None \<Longrightarrow> String todo = Prefix todo @ ''TODO: '' @ Suffix todo"
  by (simp add: String_def)

lemma String_reported:
  "ID todo = Some i \<Longrightarrow> String todo = Prefix todo @ ''TODO('' @ i @ ''): '' @ Suffix todo"
  by (simp add: String_def)

lemma lineAsUnreportedTodo_String:
  assumes "lineAsUnreportedTodo cfg line = Some todo"
  shows "String todo = line"
proof -
  from lineAsUnreportedTodo_Some [OF assms]
  have l: "line = Prefix todo @ ''TODO: '' @ Suffix todo"
    and t: "todo = \<lparr>Prefix = Prefix todo, Suffix = Suffix todo, ID = None, Filename = [], Line = 0,
                 Title = Title_Transform cfg (Suffix todo)\<rparr>"
    by blast+
  from t have "ID todo = None" by (metis Todo.select_convs(3))
  then show ?thesis using l by (simp only: String_unreported)
qed

lemma round_trip_safe_imp:
  assumes "round_trip_safe todo"
  shows "round_trips cfg todo"
proof (cases "ID todo")
  case None
  then have s: "String todo = Prefix todo @ ''TODO: '' @ Suffix todo"
    by (rule String_unreported)
  from assms None have "newline \<notin> set (String todo)" "\<not> sublist ''TODO: '' (Suffix todo)"
    by (simp_all add: round_trip_safe_def)
  then have "lineAsUnreportedTodo cfg (String todo) =
           Some \<lparr>Prefix = Prefix todo, Suffix = Suffix todo, ID = None, Filename = [], Line = 0,
                 Title = Title_Transform cfg (Suffix todo)\<rparr>"
    unfolding s by (intro lineAsUnreportedTodo_canonical) simp_all
  then have "LineAsTodo cfg (String todo) =
           Some \<lparr>Prefix = Prefix todo, Suffix = Suffix todo, ID = None, Filename = [], Line = 0,
                 Title = Title_Transform cfg (Suffix todo)\<rparr>"
    by (rule LineAsTodo_unreported)
  then show ?thesis using None by (simp add: round_trips_def)
next
  case (Some i)
  then have s: "String todo = Prefix todo @ ''TODO('' @ i @ ''): '' @ Suffix todo"
    by (rule String_reported)
  from assms Some have safe: "newline \<notin> set (String todo)" "\<not> sublist ''TODO: '' (String todo)"
    "\<not> sublist ''TODO('' i" "\<not> sublist ''): '' (Suffix todo)"
    by (simp_all add: round_trip_safe_def)
  from safe(2) have "lineAsUnreportedTodo cfg (String todo) = None"
    by (simp add: lineAsUnreportedTodo_None)
  then have "LineAsTodo cfg (String todo) = lineAsReportedTodo cfg (String todo)"
    by (rule LineAsTodo_reported)
  also have "\<dots> = Some \<lparr>Prefix = Prefix todo, Suffix = Suffix todo, ID = Some i, Filename = [],
                 Line = 0, Title = Title_Transform cfg (Suffix todo)\<rparr>"
    using safe(1,3,4) unfolding s by (intro lineAsReportedTodo_canonical) simp_all
  finally show ?thesis using Some by (simp add: round_trips_def)
qed

lemma round_trips_imp_safe:
  assumes "round_trips cfg todo"
  shows "round_trip_safe todo"
proof -
  from assms obtain t' where t': "LineAsTodo cfg (String todo) = Some t'"
    and eq: "Prefix t' = Prefix todo" "Suffix t' = Suffix todo" "ID t' = ID todo"
    by (auto simp: round_trips_def split: option.splits)
  show ?thesis
  proof (cases "lineAsUnreportedTodo cfg (String todo)")
    case (Some u)
    with t' have u: "lineAsUnreportedTodo cfg (String todo) = Some t'"
      by (simp add: LineAsTodo_def)
    from lineAsUnreportedTodo_Some [OF u]
    have nl: "newline \<notin> set (String todo)" and ns: "\<not> sublist ''TODO: '' (Suffix t')"
      and r: "t' = \<lparr>Prefix = Prefix t', Suffix = Suffix t', ID = None, Filename = [], Line = 0,
                 Title = Title_Transform cfg (Suffix t')\<rparr>"
      by blast+
    from r have "ID t' = None" by (metis Todo.select_convs(3))
    with eq(3) have "ID todo = None" by simp
    with nl ns eq(2) show ?thesis by (simp add: round_trip_safe_def)
  next
    case None
    then have nt: "\<not> sublist ''TODO: '' (String todo) \<or> newline \<in> set (String todo)"
      by (auto simp: lineAsUnreportedTodo_None)
    from None t' have "lineAsReportedTodo cfg (String todo) = Some t'"
      by (simp add: LineAsTodo_def split: option.splits)
    from lineAsReportedTodo_Some [OF this]
    obtain i where nl: "newline \<notin> set (String todo)" and ni: "\<not> sublist ''TODO('' i"
      and ns: "\<not> sublist ''): '' (Suffix t')"
      and r: "t' = \<lparr>Prefix = Prefix t', Suffix = Suffix t', ID = Some i, Filename = [],
                   Line = 0, Title = Title_Transform cfg (Suffix t')\<rparr>"
      by blast
    from r have "ID t' = Some i" by (metis Todo.select_convs(3))
    with eq(3) have "ID todo = Some i" by simp
    with nl nt ni ns eq(2) show ?thesis by (simp add: round_trip_safe_def)
  qed
qed

text \<open>The canonical form of a Todo that \<open>LineAsTodo\<close> has found is the line it was found in.\<close>

lemma LineAsTodo_String:
  assumes "LineAsTodo cfg line = Some todo"
  shows "String todo = line"
proof (cases "lineAsUnreportedTodo cfg line")
  case (Some u)
  with assms have "lineAsUnreportedTodo cfg line = Some todo" by (simp add: LineAsTodo_def)
  then show ?thesis by (rule lineAsUnreportedTodo_String)
next
  case None
  with assms have "lineAsReportedTodo cfg line = Some todo"
    by (simp add: LineAsTodo_def split: option.splits)
  from lineAsReportedTodo_Some [OF this]
  obtain i where l: "line = Prefix todo @ ''TODO('' @ i @ ''): '' @ Suffix todo"
    and t: "todo = \<lparr>Prefix = Prefix todo, Suffix = Suffix todo, ID = Some i, Filename = [],
                 Line = 0, Title = Title_Transform cfg (Suffix todo)\<rparr>"
    by blast
  from t have "ID todo = Some i" by (metis Todo.select_convs(3))
  then show ?thesis using l by (simp only: String_reported)
qed

section \<open>Claims about the line parser\<close>

text \<open>
  C8. Parsing the line \<^verbatim>\<open>  // TODO: fix this\<close> gives the prefix \<^verbatim>\<open>  // \<close>, the suffix
  \<^verbatim>\<open>fix this\<close> and no identifier; parsing \<^verbatim>\<open>x := 1 // TODO(#42): refactor\<close> gives
  the prefix \<^verbatim>\<open>x := 1 // \<close>, the suffix \<^verbatim>\<open>refactor\<close> and the identifier \<^verbatim>\<open>#42\<close>.
  This holds for every project configuration.
\<close>

theorem LineAsTodo_examples:
  "LineAsTodo cfg ''  // TODO: fix this'' =
     Some \<lparr>Prefix = ''  // '', Suffix = ''fix this'', ID = None, Filename = [], Line = 0,
           Title = Title_Transform cfg ''fix this''\<rparr> \<and>
   LineAsTodo cfg ''x := 1 // TODO(#42): refactor'' =
     Some \<lparr>Prefix = ''x := 1 // '', Suffix = ''refactor'', ID = Some ''#42'', Filename = [],
           Line = 0, Title = Title_Transform cfg ''refactor''\<rparr>"
  by (simp add: LineAsTodo_def lineAsUnreportedTodo_def lineAsReportedTodo_def
      unreportedTodo_regexp_def reportedTodo_regexp_def regex_match_Grp dot_span_def newline_def)

text \<open>
  C9. For every line of the unreported shape, \<open>lineAsUnreportedTodo\<close> returns a Todo;
  its prefix, the marker \<^verbatim>\<open>TODO: \<close> and its suffix make up the line exactly, the
  suffix does not contain \<^verbatim>\<open>TODO: \<close>, and no other way of cutting the line at a
  marker has a longer prefix: the line is split at the last occurrence of the marker.
\<close>

theorem lineAsUnreportedTodo_splits_at_last_marker:
  assumes "unreported_shape line"
  shows "\<exists>todo. lineAsUnreportedTodo cfg line = Some todo \<and>
           line = Prefix todo @ ''TODO: '' @ Suffix todo \<and>
           \<not> sublist ''TODO: '' (Suffix todo) \<and>
           (\<forall>p q. line = p @ ''TODO: '' @ q \<longrightarrow> length p \<le> length (Prefix todo))"
proof -
  from assms have "lineAsUnreportedTodo cfg line \<noteq> None"
    by (simp add: lineAsUnreportedTodo_None_shape)
  then obtain todo where todo: "lineAsUnreportedTodo cfg line = Some todo" by blast
  from lineAsUnreportedTodo_Some [OF todo]
  have l: "line = Prefix todo @ ''TODO: '' @ Suffix todo"
    and ns: "\<not> sublist ''TODO: '' (Suffix todo)" by blast+
  have "length p \<le> length (Prefix todo)" if pq: "line = p @ ''TODO: '' @ q" for p q
  proof (rule ccontr)
    assume "\<not> length p \<le> length (Prefix todo)"
    then have "length (Prefix todo) < length p" by simp
    moreover have "take (length ''TODO: '') (drop (length p) line) = ''TODO: ''"
      unfolding pq by simp
    ultimately show False
      using no_later_occurrence [OF marker_literals(2,3) ns, of "Prefix todo"] l
      by metis
  qed
  with todo l ns show ?thesis by blast
qed

theorem lineAsUnreportedTodo_splits_at_last_marker_witness:
  "unreported_shape ''a TODO: b TODO: c'' \<and>
   (\<exists>todo. lineAsUnreportedTodo \<lparr>Title_Transform = id\<rparr> ''a TODO: b TODO: c'' = Some todo \<and>
      ''a TODO: b TODO: c'' = Prefix todo @ ''TODO: '' @ Suffix todo \<and>
      \<not> sublist ''TODO: '' (Suffix todo) \<and>
      (\<forall>p q. ''a TODO: b TODO: c'' = p @ ''TODO: '' @ q \<longrightarrow> length p \<le> length (Prefix todo)))"
proof -
  have h: "unreported_shape ''a TODO: b TODO: c''"
    by (simp add: unreported_shape_def newline_def sublist_Cons_right)
  from lineAsUnreportedTodo_splits_at_last_marker [OF h, of "\<lparr>Title_Transform = id\<rparr>"] h
  show ?thesis by (intro conjI)
qed

text \<open>
  C7. For every string \<open>s\<close> of the unreported shape, parsing \<open>s\<close> gives a Todo, and
  parsing the canonical form of that Todo gives the same Todo again; this holds for
  \<open>lineAsUnreportedTodo\<close> and for \<open>LineAsTodo\<close>.
\<close>

theorem unreported_parse_is_stable:
  assumes "unreported_shape s"
  shows "\<exists>todo. lineAsUnreportedTodo cfg s = Some todo \<and>
           lineAsUnreportedTodo cfg (String todo) = lineAsUnreportedTodo cfg s \<and>
           LineAsTodo cfg s = Some todo \<and>
           LineAsTodo cfg (String todo) = LineAsTodo cfg s"
proof -
  from assms have "lineAsUnreportedTodo cfg s \<noteq> None"
    by (simp add: lineAsUnreportedTodo_None_shape)
  then obtain todo where todo: "lineAsUnreportedTodo cfg s = Some todo" by blast
  then have "String todo = s" by (rule lineAsUnreportedTodo_String)
  moreover from todo have "LineAsTodo cfg s = Some todo" by (rule LineAsTodo_unreported)
  ultimately show ?thesis using todo by simp
qed

theorem unreported_parse_is_stable_witness:
  "unreported_shape ''  // TODO: fix this'' \<and>
   (\<exists>todo. lineAsUnreportedTodo \<lparr>Title_Transform = id\<rparr> ''  // TODO: fix this'' = Some todo \<and>
      lineAsUnreportedTodo \<lparr>Title_Transform = id\<rparr> (String todo) =
        lineAsUnreportedTodo \<lparr>Title_Transform = id\<rparr> ''  // TODO: fix this'' \<and>
      LineAsTodo \<lparr>Title_Transform = id\<rparr> ''  // TODO: fix this'' = Some todo \<and>
      LineAsTodo \<lparr>Title_Transform = id\<rparr> (String todo) =
        LineAsTodo \<lparr>Title_Transform = id\<rparr> ''  // TODO: fix this'')"
proof -
  have h: "unreported_shape ''  // TODO: fix this''"
    by (simp add: unreported_shape_def newline_def sublist_Cons_right)
  from unreported_parse_is_stable [OF h, of "\<lparr>Title_Transform = id\<rparr>"] h
  show ?thesis by (intro conjI)
qed

text \<open>
  C3, as stated, fails: the line \<^verbatim>\<open>// TODO(#12): drop the TODO: prefix\<close> has the
  reported shape, and \<open>LineAsTodo\<close> returns an unreported Todo for it, because the
  unreported shape is tried first.
\<close>

theorem reported_shape_does_not_win_counterexample:
  "reported_shape ''// TODO(#12): drop the TODO: prefix'' \<and>
   LineAsTodo \<lparr>Title_Transform = id\<rparr> ''// TODO(#12): drop the TODO: prefix'' =
     Some \<lparr>Prefix = ''// TODO(#12): drop the '', Suffix = ''prefix'', ID = None,
           Filename = [], Line = 0, Title = ''prefix''\<rparr>"
  by (simp add: reported_shape_def sublist_Cons_right LineAsTodo_def lineAsUnreportedTodo_def
      unreportedTodo_regexp_def regex_match_Grp dot_span_def newline_def)

text \<open>
  C3, amended. \<open>LineAsTodo\<close> gives at most one Todo for a line, and the unreported
  shape has priority: a line of the unreported shape is parsed as an unreported Todo
  (no identifier), whether or not it also has the reported shape; a line of the
  reported shape is parsed as a reported Todo (identifier present) when it does not
  have the unreported shape; a line of neither shape is no Todo.
\<close>

theorem LineAsTodo_unreported_shape_first:
  "(unreported_shape line \<longrightarrow> (\<exists>todo. LineAsTodo cfg line = Some todo \<and> ID todo = None)) \<and>
   (reported_shape line \<and> \<not> unreported_shape line \<longrightarrow>
      (\<exists>todo. LineAsTodo cfg line = Some todo \<and> ID todo \<noteq> None)) \<and>
   (\<not> reported_shape line \<and> \<not> unreported_shape line \<longrightarrow> LineAsTodo cfg line = None)"
proof (intro conjI impI)
  assume "unreported_shape line"
  then have "lineAsUnreportedTodo cfg line \<noteq> None"
    by (simp add: lineAsUnreportedTodo_None_shape)
  then obtain todo where todo: "lineAsUnreportedTodo cfg line = Some todo" by blast
  from lineAsUnreportedTodo_Some [OF todo]
  have "todo = \<lparr>Prefix = Prefix todo, Suffix = Suffix todo, ID = None, Filename = [], Line = 0,
                 Title = Title_Transform cfg (Suffix todo)\<rparr>" by blast
  then have "ID todo = None" by (metis Todo.select_convs(3))
  with LineAsTodo_unreported [OF todo]
  show "\<exists>todo. LineAsTodo cfg line = Some todo \<and> ID todo = None" by blast
next
  assume "reported_shape line \<and> \<not> unreported_shape line"
  then have u: "lineAsUnreportedTodo cfg line = None"
    and "lineAsReportedTodo cfg line \<noteq> None"
    by (simp_all add: lineAsUnreportedTodo_None_shape lineAsReportedTodo_None)
  then obtain todo where todo: "lineAsReportedTodo cfg line = Some todo" by blast
  from lineAsReportedTodo_Some [OF todo]
  obtain i where "todo = \<lparr>Prefix = Prefix todo, Suffix = Suffix todo, ID = Some i,
                   Filename = [], Line = 0, Title = Title_Transform cfg (Suffix todo)\<rparr>"
    by blast
  then have "ID todo = Some i" by (metis Todo.select_convs(3))
  with LineAsTodo_reported [OF u] todo
  show "\<exists>todo. LineAsTodo cfg line = Some todo \<and> ID todo \<noteq> None" by simp
next
  assume "\<not> reported_shape line \<and> \<not> unreported_shape line"
  then have u: "lineAsUnreportedTodo cfg line = None"
    and "lineAsReportedTodo cfg line = None"
    by (simp_all add: lineAsUnreportedTodo_None_shape lineAsReportedTodo_None)
  with LineAsTodo_reported [OF u] show "LineAsTodo cfg line = None" by simp
qed

theorem LineAsTodo_unreported_shape_first_witness:
  "(unreported_shape ''// TODO(#12): drop the TODO: prefix'' \<and>
    (\<exists>todo. LineAsTodo \<lparr>Title_Transform = id\<rparr> ''// TODO(#12): drop the TODO: prefix'' = Some todo \<and>
       ID todo = None)) \<and>
   ((reported_shape ''x := 1 // TODO(#42): refactor'' \<and>
     \<not> unreported_shape ''x := 1 // TODO(#42): refactor'') \<and>
    (\<exists>todo. LineAsTodo \<lparr>Title_Transform = id\<rparr> ''x := 1 // TODO(#42): refactor'' = Some todo \<and>
       ID todo \<noteq> None)) \<and>
   ((\<not> reported_shape ''x := 1'' \<and> \<not> unreported_shape ''x := 1'') \<and>
    LineAsTodo \<lparr>Title_Transform = id\<rparr> ''x := 1'' = None)"
proof -
  have a: "unreported_shape ''// TODO(#12): drop the TODO: prefix''"
    by (simp add: unreported_shape_def newline_def sublist_Cons_right)
  have b: "reported_shape ''x := 1 // TODO(#42): refactor'' \<and>
           \<not> unreported_shape ''x := 1 // TODO(#42): refactor''"
    by (simp add: unreported_shape_def reported_shape_def newline_def sublist_Cons_right)
  have c: "\<not> reported_shape ''x := 1'' \<and> \<not> unreported_shape ''x := 1''"
    by (simp add: unreported_shape_def reported_shape_def newline_def sublist_Cons_right)
  from a b c
    LineAsTodo_unreported_shape_first
      [of "''// TODO(#12): drop the TODO: prefix''" "\<lparr>Title_Transform = id\<rparr>"]
    LineAsTodo_unreported_shape_first
      [of "''x := 1 // TODO(#42): refactor''" "\<lparr>Title_Transform = id\<rparr>"]
    LineAsTodo_unreported_shape_first [of "''x := 1''" "\<lparr>Title_Transform = id\<rparr>"]
  show ?thesis by blast
qed

text \<open>
  C2, as stated, fails: the reported Todo with prefix \<^verbatim>\<open>// \<close>, identifier \<^verbatim>\<open>#1\<close>
  and suffix \<^verbatim>\<open>see TODO: x\<close> has the canonical form \<^verbatim>\<open>// TODO(#1): see TODO: x\<close>,
  which is parsed as an unreported Todo with prefix \<^verbatim>\<open>// TODO(#1): see \<close> and
  suffix \<^verbatim>\<open>x\<close>.
\<close>

theorem canonical_form_round_trip_counterexample:
  "LineAsTodo \<lparr>Title_Transform = id\<rparr>
     (String \<lparr>Prefix = ''// '', Suffix = ''see TODO: x'', ID = Some ''#1'', Filename = ''f'',
              Line = 1, Title = ''see TODO: x''\<rparr>) =
     Some \<lparr>Prefix = ''// TODO(#1): see '', Suffix = ''x'', ID = None, Filename = [], Line = 0,
           Title = ''x''\<rparr> \<and>
   \<not> round_trips \<lparr>Title_Transform = id\<rparr>
       \<lparr>Prefix = ''// '', Suffix = ''see TODO: x'', ID = Some ''#1'', Filename = ''f'',
        Line = 1, Title = ''see TODO: x''\<rparr>"
  by (simp add: round_trips_def String_def LineAsTodo_def lineAsUnreportedTodo_def
      unreportedTodo_regexp_def regex_match_Grp dot_span_def newline_def)

text \<open>
  C2, amended. Parsing the canonical form of a Todo gives back its prefix, suffix and
  identifier exactly when the canonical form has no newline and is cut where it was
  put together: for an unreported Todo the suffix does not contain \<^verbatim>\<open>TODO: \<close>; for a
  reported Todo the canonical form does not contain \<^verbatim>\<open>TODO: \<close>, the identifier
  does not contain \<^verbatim>\<open>TODO(\<close> and the suffix does not contain \<^verbatim>\<open>): \<close>.
\<close>

theorem canonical_form_round_trip:
  "round_trips cfg todo \<longleftrightarrow> round_trip_safe todo"
  using round_trips_imp_safe round_trip_safe_imp by blast

theorem canonical_form_round_trip_witness:
  "round_trip_safe \<lparr>Prefix = ''x := 1 // '', Suffix = ''refactor'', ID = Some ''#42'',
                    Filename = ''main.go'', Line = 7, Title = ''refactor''\<rparr> \<and>
   round_trips \<lparr>Title_Transform = id\<rparr>
     \<lparr>Prefix = ''x := 1 // '', Suffix = ''refactor'', ID = Some ''#42'',
      Filename = ''main.go'', Line = 7, Title = ''refactor''\<rparr>"
proof -
  have "round_trip_safe \<lparr>Prefix = ''x := 1 // '', Suffix = ''refactor'', ID = Some ''#42'',
                    Filename = ''main.go'', Line = 7, Title = ''refactor''\<rparr>"
    by (simp add: round_trip_safe_def String_def newline_def sublist_Cons_right)
  then show ?thesis
    using canonical_form_round_trip [of "\<lparr>Title_Transform = id\<rparr>"] by blast
qed

section \<open>Properties of the scanner\<close>

declare scan_tokens.simps [simp del]
declare read_lines.simps [simp del]

lemma takeWhile_line:
  "newline \<notin> set l \<Longrightarrow> takeWhile (\<lambda>c. c \<noteq> newline) (l @ newline # rest) = l"
  by (induction l) auto

lemma takeWhile_no_newline:
  "newline \<notin> set l \<Longrightarrow> takeWhile (\<lambda>c. c \<noteq> newline) l = l"
  by (induction l) auto

lemma scan_tokens_Nil: "scan_tokens [] e = ([], if e = EOF then None else Some e)"
  by (simp add: scan_tokens.simps)

lemma scan_tokens_line:
  assumes "newline \<notin> set l" "length l < MaxScanTokenSize"
  shows "scan_tokens (l @ newline # rest) e =
           (dropCR l # fst (scan_tokens rest e), snd (scan_tokens rest e))"
proof -
  have "length (takeWhile (\<lambda>c. c \<noteq> newline) (l @ newline # rest)) = length l"
    using assms(1) by (simp add: takeWhile_line)
  then show ?thesis
    using assms(2)
    by (subst scan_tokens.simps) (simp add: Let_def split: prod.splits)
qed

lemma scan_tokens_last:
  assumes "newline \<notin> set l" "l \<noteq> []" "length l < MaxScanTokenSize"
  shows "scan_tokens l e = ([dropCR l], if e = EOF then None else Some e)"
proof -
  have "length (takeWhile (\<lambda>c. c \<noteq> newline) l) = length l"
    using assms(1) by (simp add: takeWhile_no_newline)
  then show ?thesis
    using assms(2,3)
    by (subst scan_tokens.simps) (simp add: Let_def)
qed

lemma scan_tokens_long_line:
  assumes "newline \<notin> set l" "MaxScanTokenSize \<le> length l"
  shows "scan_tokens (l @ newline # rest) e = ([], Some ErrTooLong)"
proof -
  have "length (takeWhile (\<lambda>c. c \<noteq> newline) (l @ newline # rest)) = length l"
    using assms(1) by (simp add: takeWhile_line)
  then show ?thesis
    using assms(2)
    by (subst scan_tokens.simps) (simp add: Let_def)
qed

lemma scan_tokens_long_last:
  assumes "newline \<notin> set l" "MaxScanTokenSize \<le> length l"
  shows "scan_tokens l e = ([], Some ErrTooLong)"
proof -
  have "length (takeWhile (\<lambda>c. c \<noteq> newline) l) = length l"
    using assms(1) by (simp add: takeWhile_no_newline)
  moreover have "l \<noteq> []" using assms(2) by (auto simp: MaxScanTokenSize_def)
  ultimately show ?thesis
    using assms(2)
    by (subst scan_tokens.simps) (simp add: Let_def)
qed

lemma lines_induct [case_names Nil Last Line]:
  assumes "P []"
    and "\<And>l. l \<noteq> [] \<Longrightarrow> newline \<notin> set l \<Longrightarrow> P l"
    and "\<And>l rest. newline \<notin> set l \<Longrightarrow> P rest \<Longrightarrow> P (l @ newline # rest)"
  shows "P bs"
proof (induction "length bs" arbitrary: bs rule: less_induct)
  case less
  show ?case
  proof (cases "newline \<in> set bs")
    case False
    then show ?thesis using assms(1,2) by (cases "bs = []") auto
  next
    case True
    then obtain l rest where bs: "bs = l @ newline # rest" and l: "newline \<notin> set l"
      by (meson split_list_first)
    have "length rest < length bs" unfolding bs by simp
    then have "P rest" by (rule less)
    with l show ?thesis unfolding bs by (rule assms(3))
  qed
qed

lemma dropCR_id: "l = [] \<or> last l \<noteq> carriage_return \<Longrightarrow> dropCR l = l"
  by (auto simp: dropCR_def)

lemma set_dropCR: "set (dropCR l) \<subseteq> set l"
  by (auto simp: dropCR_def dest: in_set_butlastD)

lemma length_dropCR: "length (dropCR l) \<le> length l"
  by (simp add: dropCR_def)

lemma scan_tokens_tokens:
  "t \<in> set (fst (scan_tokens bs e)) \<Longrightarrow> newline \<notin> set t \<and> length t < MaxScanTokenSize"
proof (induction bs rule: lines_induct)
  case Nil
  then show ?case by (simp add: scan_tokens_Nil)
next
  case (Last l)
  show ?case
  proof (cases "length l < MaxScanTokenSize")
    case True
    with Last have "t = dropCR l" by (simp add: scan_tokens_last)
    with Last(2) True show ?thesis
      using set_dropCR [of l] length_dropCR [of l] by auto
  next
    case False
    with Last show ?thesis by (simp add: scan_tokens_long_last)
  qed
next
  case (Line l rest)
  show ?case
  proof (cases "length l < MaxScanTokenSize")
    case True
    with Line have "t = dropCR l \<or> t \<in> set (fst (scan_tokens rest e))"
      by (simp add: scan_tokens_line)
    then show ?thesis
    proof
      assume "t = dropCR l"
      with Line(1) True show ?thesis
        using set_dropCR [of l] length_dropCR [of l] by auto
    next
      assume "t \<in> set (fst (scan_tokens rest e))"
      then show ?thesis by (rule Line.IH)
    qed
  next
    case False
    with Line show ?thesis by (simp add: scan_tokens_long_line)
  qed
qed

lemma join_lines_Nil [simp]: "join_lines [] = []"
  by (simp add: join_lines_def)

lemma join_lines_Cons [simp]: "join_lines (l # ls) = l @ newline # join_lines ls"
  by (simp add: join_lines_def)

lemma join_lines_append [simp]: "join_lines (xs @ ys) = join_lines xs @ join_lines ys"
  by (simp add: join_lines_def)

lemma scan_tokens_join_lines:
  assumes "\<forall>t\<in>set ts. newline \<notin> set t \<and> length t < MaxScanTokenSize"
  shows "scan_tokens (join_lines ts) e = (map dropCR ts, if e = EOF then None else Some e)"
  using assms
proof (induction ts)
  case Nil
  show ?case by (simp add: scan_tokens_Nil)
next
  case (Cons t ts)
  then have "scan_tokens (t @ newline # join_lines ts) e =
    (dropCR t # fst (scan_tokens (join_lines ts) e), snd (scan_tokens (join_lines ts) e))"
    by (intro scan_tokens_line) simp_all
  with Cons show ?case by simp
qed

lemma with_final_newline_line:
  "with_final_newline (l @ newline # rest) = l @ newline # with_final_newline rest"
  by (simp add: with_final_newline_def)

lemma scan_tokens_keeps_bytes:
  "snd (scan_tokens bs e) = None \<Longrightarrow> \<not> sublist [carriage_return, newline] bs \<Longrightarrow>
   bs = [] \<or> last bs \<noteq> carriage_return \<Longrightarrow>
   join_lines (fst (scan_tokens bs e)) = with_final_newline bs"
proof (induction bs rule: lines_induct)
  case Nil
  show ?case by (simp add: scan_tokens_Nil with_final_newline_def)
next
  case (Last l)
  have short: "length l < MaxScanTokenSize"
  proof (rule ccontr)
    assume "\<not> length l < MaxScanTokenSize"
    with Last show False by (simp add: scan_tokens_long_last)
  qed
  from Last(1,5) have "dropCR l = l" by (simp add: dropCR_id)
  with Last(1,2) short have "join_lines (fst (scan_tokens l e)) = l @ [newline]"
    by (simp add: scan_tokens_last)
  moreover have "last l \<noteq> newline" using Last(1,2) last_in_set by metis
  ultimately show ?case using Last(1) by (simp add: with_final_newline_def)
next
  case (Line l rest)
  have short: "length l < MaxScanTokenSize"
  proof (rule ccontr)
    assume "\<not> length l < MaxScanTokenSize"
    with Line show False by (simp add: scan_tokens_long_line)
  qed
  with Line(1) have sc: "scan_tokens (l @ newline # rest) e =
      (dropCR l # fst (scan_tokens rest e), snd (scan_tokens rest e))"
    by (rule scan_tokens_line)
  have "dropCR l = l"
  proof (rule dropCR_id, rule ccontr)
    assume "\<not> (l = [] \<or> last l \<noteq> carriage_return)"
    then have "l = butlast l @ [carriage_return]" by (metis append_butlast_last_id)
    then have "l @ newline # rest = butlast l @ [carriage_return, newline] @ rest"
      by (metis append_Cons append_Nil append_assoc)
    then have "sublist [carriage_return, newline] (l @ newline # rest)"
      unfolding sublist_def by blast
    with Line(4) show False ..
  qed
  moreover have "snd (scan_tokens rest e) = None" using Line(3) sc by simp
  moreover have "\<not> sublist [carriage_return, newline] rest"
    using Line(4) by (metis sublist_Cons_right sublist_append)
  moreover have "rest = [] \<or> last rest \<noteq> carriage_return" using Line(5) by auto
  ultimately have "join_lines (fst (scan_tokens (l @ newline # rest) e)) =
      l @ newline # with_final_newline rest"
    using Line.IH sc by simp
  then show ?case by (simp only: with_final_newline_line)
qed

section \<open>Properties of lines\<close>

declare split_lines.simps [simp del]

lemma split_lines_Nil [simp]: "split_lines [] = []"
  by (simp add: split_lines.simps)

lemma split_lines_line:
  assumes "newline \<notin> set l"
  shows "split_lines (l @ newline # rest) = l # split_lines rest"
  using assms
  by (subst split_lines.simps) (simp add: Let_def takeWhile_line)

lemma split_lines_last:
  assumes "newline \<notin> set l" "l \<noteq> []"
  shows "split_lines l = [l]"
  using assms
  by (subst split_lines.simps) (simp add: Let_def takeWhile_no_newline)

lemma split_lines_no_newline: "l \<in> set (split_lines bs) \<Longrightarrow> newline \<notin> set l"
proof (induction bs rule: lines_induct)
  case Nil
  then show ?case by simp
next
  case (Last l')
  then show ?case by (simp add: split_lines_last)
next
  case (Line l' rest)
  then show ?case by (auto simp: split_lines_line)
qed

lemma split_lines_join_lines:
  "\<forall>l\<in>set ls. newline \<notin> set l \<Longrightarrow> split_lines (join_lines ls) = ls"
  by (induction ls) (simp_all add: split_lines_line)

lemma join_lines_split_lines: "join_lines (split_lines bs) = with_final_newline bs"
proof (induction bs rule: lines_induct)
  case Nil
  show ?case by (simp add: with_final_newline_def)
next
  case (Last l)
  then have "last l \<noteq> newline" using last_in_set by metis
  with Last show ?case by (simp add: split_lines_last with_final_newline_def)
next
  case (Line l rest)
  then show ?case by (simp add: split_lines_line with_final_newline_line)
qed

text \<open>
  When the scanner reaches the end of the file without error, its tokens are the lines
  of the file, each without the carriage return at its end.
\<close>

lemma scan_tokens_split_lines:
  "snd (scan_tokens bs e) = None \<Longrightarrow> fst (scan_tokens bs e) = map dropCR (split_lines bs)"
proof (induction bs rule: lines_induct)
  case Nil
  show ?case by (simp add: scan_tokens_Nil)
next
  case (Last l)
  have short: "length l < MaxScanTokenSize"
  proof (rule ccontr)
    assume "\<not> length l < MaxScanTokenSize"
    with Last show False by (simp add: scan_tokens_long_last)
  qed
  with Last show ?case by (simp add: scan_tokens_last split_lines_last)
next
  case (Line l rest)
  have short: "length l < MaxScanTokenSize"
  proof (rule ccontr)
    assume "\<not> length l < MaxScanTokenSize"
    with Line show False by (simp add: scan_tokens_long_line)
  qed
  with Line(1) have sc: "scan_tokens (l @ newline # rest) e =
      (dropCR l # fst (scan_tokens rest e), snd (scan_tokens rest e))"
    by (rule scan_tokens_line)
  with Line(3) have "snd (scan_tokens rest e) = None" by simp
  then have "fst (scan_tokens rest e) = map dropCR (split_lines rest)" by (rule Line.IH)
  with sc Line(1) show ?case by (simp add: split_lines_line)
qed

text \<open>It does so exactly when the read ends with \<open>io.EOF\<close> and every line fits.\<close>

lemma scan_tokens_no_error_iff:
  "snd (scan_tokens bs e) = None \<longleftrightarrow>
     e = EOF \<and> (\<forall>l\<in>set (split_lines bs). length l < MaxScanTokenSize)"
proof (induction bs rule: lines_induct)
  case Nil
  show ?case by (simp add: scan_tokens_Nil)
next
  case (Last l)
  show ?case
  proof (cases "length l < MaxScanTokenSize")
    case True
    with Last show ?thesis by (simp add: scan_tokens_last split_lines_last)
  next
    case False
    with Last show ?thesis by (simp add: scan_tokens_long_last split_lines_last)
  qed
next
  case (Line l rest)
  show ?case
  proof (cases "length l < MaxScanTokenSize")
    case True
    with Line show ?thesis by (simp add: scan_tokens_line split_lines_line)
  next
    case False
    with Line show ?thesis by (simp add: scan_tokens_long_line split_lines_line)
  qed
qed

lemma dropCR_lines:
  "\<forall>l\<in>set ls. l = [] \<or> last l \<noteq> carriage_return \<Longrightarrow> map dropCR ls = ls"
  by (induction ls) (simp_all add: dropCR_id)

lemma dropCR_no_newline: "newline \<notin> set l \<Longrightarrow> newline \<notin> set (dropCR l)"
  using set_dropCR [of l] by auto

section \<open>Properties of the rewriter\<close>

lemma Fprintln_ok [simp]: "Fprintln None replace = replace @ [newline]"
  by (simp add: Fprintln_def)

text \<open>What the loop writes when no write fails.\<close>

lemma rewrite_lines_keep:
  assumes "\<And>i. fault i = None"
  shows "rewrite_lines fault keep_line n k ts = join_lines ts"
  by (induction ts arbitrary: n k) (simp_all add: keep_line_def assms)

lemma rewrite_lines_out_of_range:
  assumes "\<And>i. fault i = None"
    and "\<And>j line. j \<noteq> N \<Longrightarrow> lineCallback j line = (line, False)"
    and "N < n \<or> n + int (length ts) \<le> N"
  shows "rewrite_lines fault lineCallback n k ts = join_lines ts"
  using assms(3)
proof (induction ts arbitrary: n k)
  case Nil
  show ?case by simp
next
  case (Cons t ts)
  then have "n \<noteq> N" by auto
  then have "lineCallback n t = (t, False)" by (rule assms(2))
  moreover have "rewrite_lines fault lineCallback (n + 1) (Suc k) ts = join_lines ts"
    using Cons.prems by (intro Cons.IH) auto
  moreover have "fault k = None" by (rule assms(1))
  ultimately show ?case by simp
qed

lemma rewrite_lines_remove:
  assumes "\<And>i. fault i = None"
    and "\<And>j line. j \<noteq> N \<Longrightarrow> lineCallback j line = (line, False)"
    and "\<And>line. lineCallback N line = (r, True)"
    and "n \<le> N" "N < n + int (length ts)"
  shows "rewrite_lines fault lineCallback n k ts =
           join_lines (take (nat (N - n)) ts @ drop (Suc (nat (N - n))) ts)"
  using assms(4,5)
proof (induction ts arbitrary: n k)
  case Nil
  then show ?case by simp
next
  case (Cons t ts)
  show ?case
  proof (cases "n = N")
    case True
    have "rewrite_lines fault lineCallback (n + 1) k ts = join_lines ts"
      using True by (intro rewrite_lines_out_of_range [where N = N] assms(1,2)) auto
    with True assms(3) show ?thesis by simp
  next
    case False
    with Cons.prems have lt: "n + 1 \<le> N" "N < n + 1 + int (length ts)" by auto
    then have ih: "rewrite_lines fault lineCallback (n + 1) (Suc k) ts =
        join_lines (take (nat (N - (n + 1))) ts @ drop (Suc (nat (N - (n + 1)))) ts)"
      by (rule Cons.IH)
    from lt have "nat (N - n) = Suc (nat (N - (n + 1)))" by simp
    moreover from False have "lineCallback n t = (t, False)" by (rule assms(2))
    moreover have "fault k = None" by (rule assms(1))
    ultimately show ?thesis using ih by simp
  qed
qed

text \<open>
  When the file can be opened and the output file created, \<open>updateToFile\<close> returns
  \<open>nil\<close>, whatever the scanner, the writes and \<open>Close\<close> report.
\<close>

lemma updateToFile_ok:
  assumes "open_err w (Filename todo) = None" "files w (Filename todo) = Some f"
    and "create_err w outputFilename = None" "outputFilename \<noteq> Filename todo"
  shows "updateToFile todo outputFilename lineCallback w =
           (None, w\<lparr>files := (files w)(outputFilename \<mapsto>
              \<lparr>data = kept_after_Close w outputFilename
                        (rewrite_lines (write_fault w outputFilename) lineCallback 1 0
                           (fst (scan_tokens (data f) (read_err f)))),
               read_err = EOF\<rparr>)\<rparr>)"
  using assms
  by (simp add: updateToFile_def os_Open_def os_Create_def read_handle_def Let_def
      kept_after_Close_def)

lemma updateInPlace_ok:
  assumes "open_err w (Filename todo) = None" "files w (Filename todo) = Some f"
    and "create_err w (Filename todo @ ''.snitch'') = None"
    and "rename_err w (Filename todo @ ''.snitch'') (Filename todo) = None"
  shows "updateInPlace todo lineCallback w =
           (None, w\<lparr>files := ((files w)(Filename todo @ ''.snitch'' := None))(Filename todo \<mapsto>
              \<lparr>data = kept_after_Close w (Filename todo @ ''.snitch'')
                        (rewrite_lines (write_fault w (Filename todo @ ''.snitch'')) lineCallback
                           1 0 (fst (scan_tokens (data f) (read_err f)))),
               read_err = EOF\<rparr>)\<rparr>)"
proof -
  have "Filename todo @ ''.snitch'' \<noteq> Filename todo" by simp
  from updateToFile_ok [OF assms(1,2,3) this, of lineCallback] assms(4)
  show ?thesis
    by (simp add: updateInPlace_def os_Rename_def Let_def)
qed

lemma updateInPlace_ok_result:
  assumes "open_err w (Filename todo) = None" "files w (Filename todo) = Some f"
    and "create_err w (Filename todo @ ''.snitch'') = None"
    and "rename_err w (Filename todo @ ''.snitch'') (Filename todo) = None"
  shows "fst (updateInPlace todo lineCallback w) = None"
    and "files (snd (updateInPlace todo lineCallback w)) (Filename todo) =
           Some \<lparr>data = kept_after_Close w (Filename todo @ ''.snitch'')
                        (rewrite_lines (write_fault w (Filename todo @ ''.snitch'')) lineCallback
                           1 0 (fst (scan_tokens (data f) (read_err f)))),
                 read_err = EOF\<rparr>"
  by (simp_all add: updateInPlace_ok [OF assms])

text \<open>When the file cannot be opened or the temporary file cannot be created, nothing changes.\<close>

lemma updateInPlace_refused:
  assumes "os_Open w (Filename todo) = Some err \<or>
           (os_Open w (Filename todo) = None \<and>
            create_err w (Filename todo @ ''.snitch'') = Some err)"
  shows "updateInPlace todo lineCallback w = (Some err, w)"
  using assms
  by (auto simp: updateInPlace_def updateToFile_def os_Create_def Let_def)

text \<open>
  When the rename is refused, the error is returned, the file is as it was, and the
  temporary file stays behind.
\<close>

lemma updateInPlace_rename_refused:
  assumes "open_err w (Filename todo) = None" "files w (Filename todo) = Some f"
    and "create_err w (Filename todo @ ''.snitch'') = None"
    and "rename_err w (Filename todo @ ''.snitch'') (Filename todo) = Some err"
  shows "fst (updateInPlace todo lineCallback w) = Some err"
    and "files (snd (updateInPlace todo lineCallback w)) (Filename todo) = Some f"
    and "files (snd (updateInPlace todo lineCallback w)) (Filename todo @ ''.snitch'') \<noteq> None"
proof -
  have ne: "Filename todo @ ''.snitch'' \<noteq> Filename todo" by simp
  note u = updateToFile_ok [OF assms(1,2,3) ne, of lineCallback]
  show "fst (updateInPlace todo lineCallback w) = Some err"
    using u assms(4) by (simp add: updateInPlace_def os_Rename_def Let_def)
  show "files (snd (updateInPlace todo lineCallback w)) (Filename todo) = Some f"
    using u assms(2,4) by (simp add: updateInPlace_def os_Rename_def Let_def)
  show "files (snd (updateInPlace todo lineCallback w)) (Filename todo @ ''.snitch'') \<noteq> None"
    using u assms(4) by (simp add: updateInPlace_def os_Rename_def Let_def)
qed

text \<open>
  The only errors \<open>updateInPlace\<close> returns are those of \<open>os.Open\<close>, \<open>os.Create\<close>
  and \<open>os.Rename\<close>: what the scanner, the writes and \<open>Close\<close> report never reaches
  the caller.
\<close>

lemma updateInPlace_error_sources:
  assumes "updateInPlace todo lineCallback w = (Some err, w')"
  shows "os_Open w (Filename todo) = Some err \<or>
         create_err w (Filename todo @ ''.snitch'') = Some err \<or>
         rename_err w (Filename todo @ ''.snitch'') (Filename todo) = Some err"
  using assms
  by (auto simp: updateInPlace_def updateToFile_def os_Create_def os_Rename_def Let_def
      split: option.splits sum.splits if_splits)

text \<open>
  When moreover no write to the temporary file fails and its \<open>Close\<close> succeeds, the
  file holds afterwards what the loop wrote.
\<close>

lemma updateInPlace_written:
  assumes "open_err w (Filename todo) = None" "files w (Filename todo) = Some f"
    and "create_err w (Filename todo @ ''.snitch'') = None"
    and "rename_err w (Filename todo @ ''.snitch'') (Filename todo) = None"
    and "close_fault w (Filename todo @ ''.snitch'') = None"
  shows "fst (updateInPlace todo lineCallback w) = None"
    and "files (snd (updateInPlace todo lineCallback w)) (Filename todo) =
           Some \<lparr>data = rewrite_lines (write_fault w (Filename todo @ ''.snitch'')) lineCallback
                           1 0 (fst (scan_tokens (data f) (read_err f))),
                 read_err = EOF\<rparr>"
  using updateInPlace_ok_result [OF assms(1-4), of lineCallback] assms(5)
  by (simp_all add: kept_after_Close_def)

text \<open>
  A failed write is not reported: on a disk that is full after the first write,
  \<open>Update\<close> of line 1 of a file of three lines returns \<open>nil\<close> and leaves the
  rewritten first line alone.
\<close>

lemma Update_hides_failed_writes:
  "fst (Update \<lparr>Prefix = ''// '', Suffix = ''x'', ID = Some ''#1'', Filename = ''main.go'',
                Line = 1, Title = ''x''\<rparr>
     (full_disk_world 1 [''main.go'' \<mapsto>
        \<lparr>data = ''// TODO: x'' @ newline # ''more'' @ newline # ''end'' @ [newline],
         read_err = EOF\<rparr>])) = None \<and>
   files (snd (Update \<lparr>Prefix = ''// '', Suffix = ''x'', ID = Some ''#1'', Filename = ''main.go'',
                Line = 1, Title = ''x''\<rparr>
     (full_disk_world 1 [''main.go'' \<mapsto>
        \<lparr>data = ''// TODO: x'' @ newline # ''more'' @ newline # ''end'' @ [newline],
         read_err = EOF\<rparr>]))) ''main.go'' =
     Some \<lparr>data = ''// TODO(#1): x'' @ [newline], read_err = EOF\<rparr>"
  by (simp add: Update_def updateInPlace_def updateToFile_def os_Open_def os_Create_def
      os_Rename_def read_handle_def kept_after_Close_def full_disk_world_def Let_def
      scan_tokens.simps MaxScanTokenSize_def newline_def dropCR_def carriage_return_def
      String_def Fprintln_def)

section \<open>Claims about the rewriter\<close>

text \<open>
  C5, as stated, fails: the identity transform turns the five bytes
  \<^verbatim>\<open>a\r\nb\n\<close> into \<^verbatim>\<open>a\nb\n\<close>, which differs from the input in the middle of
  the file and not only in the newlines at its end.
\<close>

theorem identity_rewrite_counterexample:
  "updateToFile
     \<lparr>Prefix = [], Suffix = [], ID = None, Filename = ''a.txt'', Line = 0, Title = []\<rparr>
     ''a.txt.snitch'' keep_line
     (plain_world [''a.txt'' \<mapsto>
        \<lparr>data = ''a'' @ [carriage_return, newline] @ ''b'' @ [newline], read_err = EOF\<rparr>]) =
   (None, plain_world [''a.txt'' \<mapsto>
        \<lparr>data = ''a'' @ [carriage_return, newline] @ ''b'' @ [newline], read_err = EOF\<rparr>,
      ''a.txt.snitch'' \<mapsto> \<lparr>data = ''a'' @ [newline] @ ''b'' @ [newline], read_err = EOF\<rparr>]) \<and>
   without_final_newlines (''a'' @ [newline] @ ''b'' @ [newline]) \<noteq>
   without_final_newlines (''a'' @ [carriage_return, newline] @ ''b'' @ [newline])"
  by (simp add: updateToFile_def os_Open_def os_Create_def read_handle_def plain_world_def
      kept_after_Close_def scan_tokens.simps dropCR_def keep_line_def
      without_final_newlines_def MaxScanTokenSize_def newline_def carriage_return_def)

text \<open>
  C5, amended. When the file can be opened and the output file created, the scanner
  reads the input to its end without error, no write to the output file fails and its
  \<open>Close\<close> succeeds, and no carriage return stands before a newline or at the end of
  the input, the identity transform writes the input byte for byte, with a newline
  added when the input is not empty and does not end with one.
\<close>

theorem identity_rewrite:
  assumes "open_err w (Filename todo) = None" and "files w (Filename todo) = Some f"
    and "create_err w outputFilename = None" and "outputFilename \<noteq> Filename todo"
    and "\<forall>i. write_fault w outputFilename i = None"
    and "close_fault w outputFilename = None"
    and "snd (scan_tokens (data f) (read_err f)) = None"
    and "\<not> sublist [carriage_return, newline] (data f)"
    and "data f = [] \<or> last (data f) \<noteq> carriage_return"
  shows "updateToFile todo outputFilename keep_line w =
           (None, w\<lparr>files := (files w)(outputFilename \<mapsto>
              \<lparr>data = with_final_newline (data f), read_err = EOF\<rparr>)\<rparr>)"
proof -
  have "rewrite_lines (write_fault w outputFilename) keep_line 1 0
          (fst (scan_tokens (data f) (read_err f))) =
        join_lines (fst (scan_tokens (data f) (read_err f)))"
    using assms(5) by (intro rewrite_lines_keep) simp
  also have "\<dots> = with_final_newline (data f)"
    using assms(7-9) by (rule scan_tokens_keeps_bytes)
  finally show ?thesis
    using updateToFile_ok [OF assms(1-4), of keep_line] assms(6)
    by (simp add: kept_after_Close_def)
qed

theorem identity_rewrite_witness:
  "open_err (plain_world [''a.txt'' \<mapsto> \<lparr>data = ''a'' @ [newline] @ ''b'', read_err = EOF\<rparr>])
     ''a.txt'' = None \<and>
   files (plain_world [''a.txt'' \<mapsto> \<lparr>data = ''a'' @ [newline] @ ''b'', read_err = EOF\<rparr>])
     ''a.txt'' = Some \<lparr>data = ''a'' @ [newline] @ ''b'', read_err = EOF\<rparr> \<and>
   create_err (plain_world [''a.txt'' \<mapsto> \<lparr>data = ''a'' @ [newline] @ ''b'', read_err = EOF\<rparr>])
     ''a.txt.snitch'' = None \<and>
   ''a.txt.snitch'' \<noteq> ''a.txt'' \<and>
   (\<forall>i. write_fault
      (plain_world [''a.txt'' \<mapsto> \<lparr>data = ''a'' @ [newline] @ ''b'', read_err = EOF\<rparr>])
      ''a.txt.snitch'' i = None) \<and>
   close_fault (plain_world [''a.txt'' \<mapsto> \<lparr>data = ''a'' @ [newline] @ ''b'', read_err = EOF\<rparr>])
     ''a.txt.snitch'' = None \<and>
   snd (scan_tokens (''a'' @ [newline] @ ''b'') EOF) = None \<and>
   \<not> sublist [carriage_return, newline] (''a'' @ [newline] @ ''b'') \<and>
   last (''a'' @ [newline] @ ''b'') \<noteq> carriage_return \<and>
   updateToFile
     \<lparr>Prefix = [], Suffix = [], ID = None, Filename = ''a.txt'', Line = 0, Title = []\<rparr>
     ''a.txt.snitch'' keep_line
     (plain_world [''a.txt'' \<mapsto> \<lparr>data = ''a'' @ [newline] @ ''b'', read_err = EOF\<rparr>]) =
   (None, plain_world [''a.txt'' \<mapsto> \<lparr>data = ''a'' @ [newline] @ ''b'', read_err = EOF\<rparr>,
      ''a.txt.snitch'' \<mapsto> \<lparr>data = ''a'' @ [newline] @ ''b'' @ [newline], read_err = EOF\<rparr>])"
proof -
  let ?f = "\<lparr>data = ''a'' @ [newline] @ ''b'', read_err = EOF\<rparr>"
  let ?w = "plain_world [''a.txt'' \<mapsto> ?f]"
  let ?t = "\<lparr>Prefix = [], Suffix = [], ID = None, Filename = ''a.txt'', Line = 0, Title = []\<rparr>"
  have h1: "open_err ?w (Filename ?t) = None" by (simp add: plain_world_def)
  have h2: "files ?w (Filename ?t) = Some ?f" by (simp add: plain_world_def)
  have h3: "create_err ?w ''a.txt.snitch'' = None" by (simp add: plain_world_def)
  have h4: "''a.txt.snitch'' \<noteq> Filename ?t" by simp
  have h5: "\<forall>i. write_fault ?w ''a.txt.snitch'' i = None" by (simp add: plain_world_def)
  have h6: "close_fault ?w ''a.txt.snitch'' = None" by (simp add: plain_world_def)
  have h7: "snd (scan_tokens (data ?f) (read_err ?f)) = None"
    by (simp add: scan_tokens.simps MaxScanTokenSize_def newline_def)
  have h8: "\<not> sublist [carriage_return, newline] (data ?f)"
    by (simp add: sublist_Cons_right newline_def carriage_return_def)
  have h9: "data ?f = [] \<or> last (data ?f) \<noteq> carriage_return"
    by (simp add: carriage_return_def)
  from identity_rewrite [OF h1 h2 h3 h4 h5 h6 h7 h8 h9] h1 h2 h3 h5 h6 h7 h8 h9
  show ?thesis
    by (simp add: plain_world_def with_final_newline_def newline_def)
qed

text \<open>
  C6, as stated, fails: \<open>Remove\<close> of line 2 of the file \<^verbatim>\<open>a\r\nb\r\nc\r\n\<close>
  leaves \<^verbatim>\<open>a\nc\n\<close>. The two other lines are there, in their order, but not with
  their original content: each has lost the carriage return at its end.
\<close>

theorem Remove_counterexample:
  "fst (Remove \<lparr>Prefix = [], Suffix = [], ID = None, Filename = ''f'', Line = 2, Title = []\<rparr>
     (plain_world [''f'' \<mapsto>
        \<lparr>data = ''a'' @ carriage_return # newline # ''b'' @ carriage_return # newline #
                 ''c'' @ [carriage_return, newline],
         read_err = EOF\<rparr>])) = None \<and>
   files (snd (Remove \<lparr>Prefix = [], Suffix = [], ID = None, Filename = ''f'', Line = 2, Title = []\<rparr>
     (plain_world [''f'' \<mapsto>
        \<lparr>data = ''a'' @ carriage_return # newline # ''b'' @ carriage_return # newline #
                 ''c'' @ [carriage_return, newline],
         read_err = EOF\<rparr>]))) ''f'' =
     Some \<lparr>data = ''a'' @ newline # ''c'' @ [newline], read_err = EOF\<rparr> \<and>
   split_lines (''a'' @ carriage_return # newline # ''b'' @ carriage_return # newline #
                ''c'' @ [carriage_return, newline]) =
     [''a'' @ [carriage_return], ''b'' @ [carriage_return], ''c'' @ [carriage_return]] \<and>
   split_lines (''a'' @ newline # ''c'' @ [newline]) = [''a'', ''c''] \<and>
   [''a'', ''c''] \<noteq> [''a'' @ [carriage_return], ''c'' @ [carriage_return]]"
  by (simp add: Remove_def updateInPlace_def updateToFile_def os_Open_def os_Create_def
      os_Rename_def read_handle_def kept_after_Close_def plain_world_def Let_def
      scan_tokens.simps split_lines.simps MaxScanTokenSize_def newline_def dropCR_def
      carriage_return_def)

text \<open>
  C6, amended. Let the file have the lines \<open>ls\<close>. When the file can be opened, the
  temporary file created and renamed over it, the scanner reads the file to its end
  without error, no write to the temporary file fails and its \<open>Close\<close> succeeds, then
  \<open>Remove\<close> of a Todo recorded at line \<open>N\<close> with \<open>1 \<le> N \<le> length ls\<close> succeeds and
  leaves a file with exactly one line fewer: its lines are the lines of \<open>ls\<close> other
  than the \<open>N\<close>-th, in their order, each without the carriage return at its end if it
  had one, and each followed by a newline. Where no line ends in a carriage return,
  they are the other lines with their original content.
\<close>

theorem Remove_deletes_one_line:
  assumes "open_err w (Filename todo) = None" and "files w (Filename todo) = Some f"
    and "create_err w (Filename todo @ ''.snitch'') = None"
    and "rename_err w (Filename todo @ ''.snitch'') (Filename todo) = None"
    and "\<forall>i. write_fault w (Filename todo @ ''.snitch'') i = None"
    and "close_fault w (Filename todo @ ''.snitch'') = None"
    and "snd (scan_tokens (data f) (read_err f)) = None"
    and "ls = split_lines (data f)"
    and "1 \<le> Line todo" and "Line todo \<le> int (length ls)"
    and "out = join_lines (map dropCR (take (nat (Line todo) - 1) ls @ drop (nat (Line todo)) ls))"
  shows "fst (Remove todo w) = None \<and>
         files (snd (Remove todo w)) (Filename todo) = Some \<lparr>data = out, read_err = EOF\<rparr> \<and>
         split_lines out =
           map dropCR (take (nat (Line todo) - 1) ls @ drop (nat (Line todo)) ls) \<and>
         length (split_lines out) + 1 = length ls \<and>
         ((\<forall>l\<in>set ls. l = [] \<or> last l \<noteq> carriage_return) \<longrightarrow>
            split_lines out = take (nat (Line todo) - 1) ls @ drop (nat (Line todo)) ls)"
proof -
  let ?cb = "\<lambda>lineNumber line. if lineNumber = Line todo then ([], True) else (line, False)"
  let ?fault = "write_fault w (Filename todo @ ''.snitch'')"
  let ?ts = "map dropCR ls"
  let ?ls' = "take (nat (Line todo) - 1) ls @ drop (nat (Line todo)) ls"
  have ts: "fst (scan_tokens (data f) (read_err f)) = ?ts"
    using assms(7) unfolding assms(8) by (rule scan_tokens_split_lines)
  note r = updateInPlace_written [OF assms(1-4,6), of ?cb]
  have nofault: "?fault i = None" for i using assms(5) by simp
  have "rewrite_lines ?fault ?cb 1 0 ?ts =
          join_lines (take (nat (Line todo - 1)) ?ts @ drop (Suc (nat (Line todo - 1))) ?ts)"
    using assms(9,10) by (intro rewrite_lines_remove [where r = "[]"] nofault) auto
  moreover have "nat (Line todo - 1) = nat (Line todo) - 1"
    "Suc (nat (Line todo - 1)) = nat (Line todo)"
    using assms(9) by auto
  ultimately have rw: "rewrite_lines ?fault ?cb 1 0 ?ts = out"
    unfolding assms(11) by (simp add: take_map drop_map)
  have a: "fst (Remove todo w) = None" unfolding Remove_def by (rule r(1))
  have b: "files (snd (Remove todo w)) (Filename todo) = Some \<lparr>data = out, read_err = EOF\<rparr>"
    unfolding Remove_def using r(2) rw ts by simp
  have "\<forall>l\<in>set ls. newline \<notin> set l"
    unfolding assms(8) using split_lines_no_newline by blast
  then have "\<forall>l\<in>set ?ls'. newline \<notin> set l"
    by (auto dest: in_set_takeD in_set_dropD)
  then have "\<forall>l\<in>set (map dropCR ?ls'). newline \<notin> set l"
    using dropCR_no_newline by auto
  then have c: "split_lines out = map dropCR ?ls'"
    unfolding assms(11) by (rule split_lines_join_lines)
  have "length ?ls' + 1 = length ls" using assms(9,10) by auto
  with c have d: "length (split_lines out) + 1 = length ls" by simp
  have e: "split_lines out = ?ls'" if "\<forall>l\<in>set ls. l = [] \<or> last l \<noteq> carriage_return"
  proof -
    from that have "\<forall>l\<in>set ?ls'. l = [] \<or> last l \<noteq> carriage_return"
      by (auto dest: in_set_takeD in_set_dropD)
    then have "map dropCR ?ls' = ?ls'" by (rule dropCR_lines)
    with c show ?thesis by simp
  qed
  from a b c d e show ?thesis by blast
qed

theorem Remove_deletes_one_line_witness:
  "open_err (plain_world [''f'' \<mapsto> \<lparr>data = ''a'' @ newline # ''b'' @ newline # ''c'' @ [newline],
      read_err = EOF\<rparr>]) ''f'' = None \<and>
   files (plain_world [''f'' \<mapsto> \<lparr>data = ''a'' @ newline # ''b'' @ newline # ''c'' @ [newline],
      read_err = EOF\<rparr>]) ''f'' =
     Some \<lparr>data = ''a'' @ newline # ''b'' @ newline # ''c'' @ [newline], read_err = EOF\<rparr> \<and>
   create_err (plain_world [''f'' \<mapsto> \<lparr>data = ''a'' @ newline # ''b'' @ newline # ''c'' @ [newline],
      read_err = EOF\<rparr>]) ''f.snitch'' = None \<and>
   rename_err (plain_world [''f'' \<mapsto> \<lparr>data = ''a'' @ newline # ''b'' @ newline # ''c'' @ [newline],
      read_err = EOF\<rparr>]) ''f.snitch'' ''f'' = None \<and>
   (\<forall>i. write_fault (plain_world [''f'' \<mapsto>
      \<lparr>data = ''a'' @ newline # ''b'' @ newline # ''c'' @ [newline], read_err = EOF\<rparr>])
      ''f.snitch'' i = None) \<and>
   close_fault (plain_world [''f'' \<mapsto> \<lparr>data = ''a'' @ newline # ''b'' @ newline # ''c'' @ [newline],
      read_err = EOF\<rparr>]) ''f.snitch'' = None \<and>
   snd (scan_tokens (''a'' @ newline # ''b'' @ newline # ''c'' @ [newline]) EOF) = None \<and>
   [''a'', ''b'', ''c''] = split_lines (''a'' @ newline # ''b'' @ newline # ''c'' @ [newline]) \<and>
   (1::int) \<le> 2 \<and> (2::int) \<le> int (length [''a'', ''b'', ''c'']) \<and>
   last ''a'' \<noteq> carriage_return \<and> last ''b'' \<noteq> carriage_return \<and>
   last ''c'' \<noteq> carriage_return \<and>
   fst (Remove \<lparr>Prefix = [], Suffix = [], ID = None, Filename = ''f'', Line = 2, Title = []\<rparr>
     (plain_world [''f'' \<mapsto> \<lparr>data = ''a'' @ newline # ''b'' @ newline # ''c'' @ [newline],
        read_err = EOF\<rparr>])) = None \<and>
   files (snd (Remove \<lparr>Prefix = [], Suffix = [], ID = None, Filename = ''f'', Line = 2, Title = []\<rparr>
     (plain_world [''f'' \<mapsto> \<lparr>data = ''a'' @ newline # ''b'' @ newline # ''c'' @ [newline],
        read_err = EOF\<rparr>]))) ''f'' =
     Some \<lparr>data = ''a'' @ newline # ''c'' @ [newline], read_err = EOF\<rparr> \<and>
   split_lines (''a'' @ newline # ''c'' @ [newline]) = [''a'', ''c''] \<and>
   length (split_lines (''a'' @ newline # ''c'' @ [newline])) + 1 = length [''a'', ''b'', ''c'']"
proof -
  let ?f = "\<lparr>data = ''a'' @ newline # ''b'' @ newline # ''c'' @ [newline], read_err = EOF\<rparr>"
  let ?w = "plain_world [''f'' \<mapsto> ?f]"
  let ?t = "\<lparr>Prefix = [], Suffix = [], ID = None, Filename = ''f'', Line = 2, Title = []\<rparr>"
  have h1: "open_err ?w (Filename ?t) = None" by (simp add: plain_world_def)
  have h2: "files ?w (Filename ?t) = Some ?f" by (simp add: plain_world_def)
  have h3: "create_err ?w (Filename ?t @ ''.snitch'') = None" by (simp add: plain_world_def)
  have h4: "rename_err ?w (Filename ?t @ ''.snitch'') (Filename ?t) = None"
    by (simp add: plain_world_def)
  have h5: "\<forall>i. write_fault ?w (Filename ?t @ ''.snitch'') i = None"
    by (simp add: plain_world_def)
  have h6: "close_fault ?w (Filename ?t @ ''.snitch'') = None" by (simp add: plain_world_def)
  have h7: "snd (scan_tokens (data ?f) (read_err ?f)) = None"
    by (simp add: scan_tokens.simps MaxScanTokenSize_def newline_def)
  have h8: "[''a'', ''b'', ''c''] = split_lines (data ?f)"
    by (simp add: split_lines.simps newline_def)
  have h9: "1 \<le> Line ?t" by simp
  have h10: "Line ?t \<le> int (length [''a'', ''b'', ''c''])" by simp
  have h11: "''a'' @ newline # ''c'' @ [newline] =
      join_lines (map dropCR (take (nat (Line ?t) - 1) [''a'', ''b'', ''c''] @
                              drop (nat (Line ?t)) [''a'', ''b'', ''c'']))"
    by (simp add: dropCR_def carriage_return_def)
  have h12: "\<forall>l\<in>set [''a'', ''b'', ''c'']. l = [] \<or> last l \<noteq> carriage_return"
    by (simp add: carriage_return_def)
  from Remove_deletes_one_line [OF h1 h2 h3 h4 h5 h6 h7 h8 h9 h10 h11]
    h1 h2 h3 h4 h5 h6 h7 h12 h8 [symmetric]
  show ?thesis by (simp add: dropCR_def carriage_return_def)
qed

text \<open>
  C10, as stated, fails: \<open>Update\<close> of a Todo recorded at line 7 of the file
  \<^verbatim>\<open>a\r\nb\r\n\<close>, which has two lines, reports success and leaves \<^verbatim>\<open>a\nb\n\<close>. The
  file has been rewritten, and not only at its end: both lines have lost their carriage
  return, so the sequence of lines is not the one the file had.
\<close>

theorem out_of_range_line_counterexample:
  "int (length (split_lines (''a'' @ carriage_return # newline # ''b'' @ [carriage_return, newline])))
     < 7 \<and>
   fst (Update \<lparr>Prefix = ''// '', Suffix = ''x'', ID = Some ''#1'', Filename = ''f'', Line = 7,
                Title = ''x''\<rparr>
     (plain_world [''f'' \<mapsto>
        \<lparr>data = ''a'' @ carriage_return # newline # ''b'' @ [carriage_return, newline],
         read_err = EOF\<rparr>])) = None \<and>
   files (snd (Update \<lparr>Prefix = ''// '', Suffix = ''x'', ID = Some ''#1'', Filename = ''f'',
                       Line = 7, Title = ''x''\<rparr>
     (plain_world [''f'' \<mapsto>
        \<lparr>data = ''a'' @ carriage_return # newline # ''b'' @ [carriage_return, newline],
         read_err = EOF\<rparr>]))) ''f'' =
     Some \<lparr>data = ''a'' @ newline # ''b'' @ [newline], read_err = EOF\<rparr> \<and>
   split_lines (''a'' @ newline # ''b'' @ [newline]) \<noteq>
   split_lines (''a'' @ carriage_return # newline # ''b'' @ [carriage_return, newline]) \<and>
   without_final_newlines (''a'' @ newline # ''b'' @ [newline]) \<noteq>
   without_final_newlines (''a'' @ carriage_return # newline # ''b'' @ [carriage_return, newline])"
  by (simp add: Update_def updateInPlace_def updateToFile_def os_Open_def os_Create_def
      os_Rename_def read_handle_def kept_after_Close_def plain_world_def Let_def
      scan_tokens.simps split_lines.simps without_final_newlines_def MaxScanTokenSize_def
      newline_def dropCR_def carriage_return_def)

text \<open>
  C10, amended. Let the file have the lines \<open>ls\<close>. When the file can be opened, the
  temporary file created and renamed over it, the scanner reads the file to its end
  without error, no write to the temporary file fails and its \<open>Close\<close> succeeds, then
  \<open>Update\<close> and \<open>Remove\<close> of a Todo whose recorded line number is greater than the
  number of lines both succeed and leave a file whose lines are the lines \<open>ls\<close>, each
  without the carriage return at its end if it had one, and each followed by a newline.
  Where no line ends in a carriage return, the sequence of lines is unchanged and the
  bytes are those of the file, with a newline added at the end when it was missing.
\<close>

theorem out_of_range_line_is_no_op:
  assumes "open_err w (Filename todo) = None" and "files w (Filename todo) = Some f"
    and "create_err w (Filename todo @ ''.snitch'') = None"
    and "rename_err w (Filename todo @ ''.snitch'') (Filename todo) = None"
    and "\<forall>i. write_fault w (Filename todo @ ''.snitch'') i = None"
    and "close_fault w (Filename todo @ ''.snitch'') = None"
    and "snd (scan_tokens (data f) (read_err f)) = None"
    and "ls = split_lines (data f)"
    and "int (length ls) < Line todo"
    and "out = join_lines (map dropCR ls)"
  shows "fst (Update todo w) = None \<and>
         files (snd (Update todo w)) (Filename todo) = Some \<lparr>data = out, read_err = EOF\<rparr> \<and>
         fst (Remove todo w) = None \<and>
         files (snd (Remove todo w)) (Filename todo) = Some \<lparr>data = out, read_err = EOF\<rparr> \<and>
         split_lines out = map dropCR ls \<and>
         ((\<forall>l\<in>set ls. l = [] \<or> last l \<noteq> carriage_return) \<longrightarrow>
            split_lines out = ls \<and> out = with_final_newline (data f))"
proof -
  let ?u = "\<lambda>lineNumber line.
              if lineNumber = Line todo then (String todo, False) else (line, False)"
  let ?r = "\<lambda>lineNumber line. if lineNumber = Line todo then ([], True) else (line, False)"
  let ?fault = "write_fault w (Filename todo @ ''.snitch'')"
  let ?ts = "map dropCR ls"
  have ts: "fst (scan_tokens (data f) (read_err f)) = ?ts"
    using assms(7) unfolding assms(8) by (rule scan_tokens_split_lines)
  have nofault: "?fault i = None" for i using assms(5) by simp
  have range: "Line todo < 1 \<or> 1 + int (length ?ts) \<le> Line todo" using assms(9) by simp
  have u: "rewrite_lines ?fault ?u 1 0 ?ts = out"
    unfolding assms(10) using range
    by (intro rewrite_lines_out_of_range [where N = "Line todo"] nofault) auto
  have r: "rewrite_lines ?fault ?r 1 0 ?ts = out"
    unfolding assms(10) using range
    by (intro rewrite_lines_out_of_range [where N = "Line todo"] nofault) auto
  note ru = updateInPlace_written [OF assms(1-4,6), of ?u]
  note rr = updateInPlace_written [OF assms(1-4,6), of ?r]
  have a: "fst (Update todo w) = None" unfolding Update_def by (rule ru(1))
  have b: "files (snd (Update todo w)) (Filename todo) = Some \<lparr>data = out, read_err = EOF\<rparr>"
    unfolding Update_def using ru(2) u ts by simp
  have c: "fst (Remove todo w) = None" unfolding Remove_def by (rule rr(1))
  have d: "files (snd (Remove todo w)) (Filename todo) = Some \<lparr>data = out, read_err = EOF\<rparr>"
    unfolding Remove_def using rr(2) r ts by simp
  have "\<forall>l\<in>set ls. newline \<notin> set l"
    unfolding assms(8) using split_lines_no_newline by blast
  then have "\<forall>l\<in>set (map dropCR ls). newline \<notin> set l"
    using dropCR_no_newline by auto
  then have e: "split_lines out = map dropCR ls"
    unfolding assms(10) by (rule split_lines_join_lines)
  have g: "split_lines out = ls \<and> out = with_final_newline (data f)"
    if "\<forall>l\<in>set ls. l = [] \<or> last l \<noteq> carriage_return"
  proof -
    from that have m: "map dropCR ls = ls" by (rule dropCR_lines)
    have "join_lines ls = with_final_newline (data f)"
      unfolding assms(8) by (rule join_lines_split_lines)
    with m e show ?thesis unfolding assms(10) by simp
  qed
  from a b c d e g show ?thesis by blast
qed

theorem out_of_range_line_is_no_op_witness:
  "open_err (plain_world [''f'' \<mapsto> \<lparr>data = ''a'' @ newline # ''b'', read_err = EOF\<rparr>]) ''f'' =
     None \<and>
   files (plain_world [''f'' \<mapsto> \<lparr>data = ''a'' @ newline # ''b'', read_err = EOF\<rparr>]) ''f'' =
     Some \<lparr>data = ''a'' @ newline # ''b'', read_err = EOF\<rparr> \<and>
   create_err (plain_world [''f'' \<mapsto> \<lparr>data = ''a'' @ newline # ''b'', read_err = EOF\<rparr>])
     ''f.snitch'' = None \<and>
   rename_err (plain_world [''f'' \<mapsto> \<lparr>data = ''a'' @ newline # ''b'', read_err = EOF\<rparr>])
     ''f.snitch'' ''f'' = None \<and>
   (\<forall>i. write_fault (plain_world [''f'' \<mapsto> \<lparr>data = ''a'' @ newline # ''b'', read_err = EOF\<rparr>])
      ''f.snitch'' i = None) \<and>
   close_fault (plain_world [''f'' \<mapsto> \<lparr>data = ''a'' @ newline # ''b'', read_err = EOF\<rparr>])
     ''f.snitch'' = None \<and>
   snd (scan_tokens (''a'' @ newline # ''b'') EOF) = None \<and>
   [''a'', ''b''] = split_lines (''a'' @ newline # ''b'') \<and>
   int (length [''a'', ''b'']) < 3 \<and>
   last ''a'' \<noteq> carriage_return \<and> last ''b'' \<noteq> carriage_return \<and>
   fst (Update \<lparr>Prefix = ''// '', Suffix = ''x'', ID = Some ''#1'', Filename = ''f'', Line = 3,
                Title = ''x''\<rparr>
     (plain_world [''f'' \<mapsto> \<lparr>data = ''a'' @ newline # ''b'', read_err = EOF\<rparr>])) = None \<and>
   files (snd (Update \<lparr>Prefix = ''// '', Suffix = ''x'', ID = Some ''#1'', Filename = ''f'',
                       Line = 3, Title = ''x''\<rparr>
     (plain_world [''f'' \<mapsto> \<lparr>data = ''a'' @ newline # ''b'', read_err = EOF\<rparr>]))) ''f'' =
     Some \<lparr>data = ''a'' @ newline # ''b'' @ [newline], read_err = EOF\<rparr> \<and>
   fst (Remove \<lparr>Prefix = ''// '', Suffix = ''x'', ID = Some ''#1'', Filename = ''f'', Line = 3,
                Title = ''x''\<rparr>
     (plain_world [''f'' \<mapsto> \<lparr>data = ''a'' @ newline # ''b'', read_err = EOF\<rparr>])) = None \<and>
   files (snd (Remove \<lparr>Prefix = ''// '', Suffix = ''x'', ID = Some ''#1'', Filename = ''f'',
                       Line = 3, Title = ''x''\<rparr>
     (plain_world [''f'' \<mapsto> \<lparr>data = ''a'' @ newline # ''b'', read_err = EOF\<rparr>]))) ''f'' =
     Some \<lparr>data = ''a'' @ newline # ''b'' @ [newline], read_err = EOF\<rparr> \<and>
   split_lines (''a'' @ newline # ''b'' @ [newline]) = [''a'', ''b''] \<and>
   ''a'' @ newline # ''b'' @ [newline] = with_final_newline (''a'' @ newline # ''b'')"
proof -
  let ?f = "\<lparr>data = ''a'' @ newline # ''b'', read_err = EOF\<rparr>"
  let ?w = "plain_world [''f'' \<mapsto> ?f]"
  let ?t = "\<lparr>Prefix = ''// '', Suffix = ''x'', ID = Some ''#1'', Filename = ''f'', Line = 3,
             Title = ''x''\<rparr>"
  have h1: "open_err ?w (Filename ?t) = None" by (simp add: plain_world_def)
  have h2: "files ?w (Filename ?t) = Some ?f" by (simp add: plain_world_def)
  have h3: "create_err ?w (Filename ?t @ ''.snitch'') = None" by (simp add: plain_world_def)
  have h4: "rename_err ?w (Filename ?t @ ''.snitch'') (Filename ?t) = None"
    by (simp add: plain_world_def)
  have h5: "\<forall>i. write_fault ?w (Filename ?t @ ''.snitch'') i = None"
    by (simp add: plain_world_def)
  have h6: "close_fault ?w (Filename ?t @ ''.snitch'') = None" by (simp add: plain_world_def)
  have h7: "snd (scan_tokens (data ?f) (read_err ?f)) = None"
    by (simp add: scan_tokens.simps MaxScanTokenSize_def newline_def)
  have h8: "[''a'', ''b''] = split_lines (data ?f)"
    by (simp add: split_lines.simps newline_def)
  have h9: "int (length [''a'', ''b'']) < Line ?t" by simp
  have h10: "''a'' @ newline # ''b'' @ [newline] = join_lines (map dropCR [''a'', ''b''])"
    by (simp add: dropCR_def carriage_return_def)
  have h11: "\<forall>l\<in>set [''a'', ''b'']. l = [] \<or> last l \<noteq> carriage_return"
    by (simp add: carriage_return_def)
  from out_of_range_line_is_no_op [OF h1 h2 h3 h4 h5 h6 h7 h8 h9 h10]
    h1 h2 h3 h4 h5 h6 h7 h11 h8 [symmetric]
  show ?thesis by (simp add: dropCR_def carriage_return_def with_final_newline_def newline_def)
qed

text \<open>
  C1 fails on the code. \<open>updateToFile\<close> never looks at \<open>scanner.Err()\<close>, so a read
  that ends in an error is taken for the end of the file: \<open>Update\<close> of line 1 of a
  file whose second line has 65536 bytes reports success, and the file is replaced by
  its rewritten first line alone; the second and third lines are lost. The same
  happens when the read fails with an input/output error after the first line (and,
  by \<open>Update_hides_failed_writes\<close>, when a write fails).
\<close>

theorem Update_replaces_file_after_read_error:
  "snd (scan_tokens
     (''// TODO: x'' @ newline # replicate 65536 CHR ''y'' @ newline # ''end'' @ [newline]) EOF) =
     Some ErrTooLong \<and>
   fst (Update \<lparr>Prefix = ''// '', Suffix = ''x'', ID = Some ''#1'', Filename = ''main.go'',
                Line = 1, Title = ''x''\<rparr>
     (plain_world [''main.go'' \<mapsto>
        \<lparr>data = ''// TODO: x'' @ newline # replicate 65536 CHR ''y'' @ newline # ''end'' @ [newline],
         read_err = EOF\<rparr>])) = None \<and>
   files (snd (Update \<lparr>Prefix = ''// '', Suffix = ''x'', ID = Some ''#1'', Filename = ''main.go'',
                       Line = 1, Title = ''x''\<rparr>
     (plain_world [''main.go'' \<mapsto>
        \<lparr>data = ''// TODO: x'' @ newline # replicate 65536 CHR ''y'' @ newline # ''end'' @ [newline],
         read_err = EOF\<rparr>]))) ''main.go'' =
     Some \<lparr>data = ''// TODO(#1): x'' @ [newline], read_err = EOF\<rparr> \<and>
   snd (scan_tokens (''// TODO: x'' @ [newline]) (ErrOther ''input/output error'')) =
     Some (ErrOther ''input/output error'') \<and>
   fst (Update \<lparr>Prefix = ''// '', Suffix = ''x'', ID = Some ''#1'', Filename = ''main.go'',
                Line = 1, Title = ''x''\<rparr>
     (plain_world [''main.go'' \<mapsto>
        \<lparr>data = ''// TODO: x'' @ [newline], read_err = ErrOther ''input/output error''\<rparr>])) =
     None \<and>
   files (snd (Update \<lparr>Prefix = ''// '', Suffix = ''x'', ID = Some ''#1'', Filename = ''main.go'',
                       Line = 1, Title = ''x''\<rparr>
     (plain_world [''main.go'' \<mapsto>
        \<lparr>data = ''// TODO: x'' @ [newline], read_err = ErrOther ''input/output error''\<rparr>])))
     ''main.go'' =
     Some \<lparr>data = ''// TODO(#1): x'' @ [newline], read_err = EOF\<rparr>"
proof -
  let ?d = "''// TODO: x'' @ newline # replicate 65536 CHR ''y'' @ newline # ''end'' @ [newline]"
  let ?f = "\<lparr>data = ?d, read_err = EOF\<rparr>"
  let ?w = "plain_world [''main.go'' \<mapsto> ?f]"
  let ?g = "\<lparr>data = ''// TODO: x'' @ [newline], read_err = ErrOther ''input/output error''\<rparr>"
  let ?v = "plain_world [''main.go'' \<mapsto> ?g]"
  let ?t = "\<lparr>Prefix = ''// '', Suffix = ''x'', ID = Some ''#1'', Filename = ''main.go'',
             Line = 1, Title = ''x''\<rparr>"
  have "scan_tokens (replicate 65536 CHR ''y'' @ newline # ''end'' @ [newline]) EOF =
          ([], Some ErrTooLong)"
    by (rule scan_tokens_long_line) (simp_all add: newline_def MaxScanTokenSize_def)
  moreover have "scan_tokens ?d EOF =
    (dropCR ''// TODO: x'' #
       fst (scan_tokens (replicate 65536 CHR ''y'' @ newline # ''end'' @ [newline]) EOF),
     snd (scan_tokens (replicate 65536 CHR ''y'' @ newline # ''end'' @ [newline]) EOF))"
    by (rule scan_tokens_line) (simp_all add: newline_def MaxScanTokenSize_def)
  ultimately have scan: "scan_tokens ?d EOF = ([''// TODO: x''], Some ErrTooLong)"
    by (simp add: dropCR_def carriage_return_def)
  have scan': "scan_tokens (''// TODO: x'' @ [newline]) (ErrOther ''input/output error'') =
      ([''// TODO: x''], Some (ErrOther ''input/output error''))"
    by (simp add: scan_tokens.simps MaxScanTokenSize_def newline_def dropCR_def
        carriage_return_def)
  have h1: "open_err ?w (Filename ?t) = None" by (simp add: plain_world_def)
  have h2: "files ?w (Filename ?t) = Some ?f" by (simp add: plain_world_def)
  have h3: "create_err ?w (Filename ?t @ ''.snitch'') = None" by (simp add: plain_world_def)
  have h4: "rename_err ?w (Filename ?t @ ''.snitch'') (Filename ?t) = None"
    by (simp add: plain_world_def)
  have h5: "close_fault ?w (Filename ?t @ ''.snitch'') = None" by (simp add: plain_world_def)
  have hw: "write_fault ?w (Filename ?t @ ''.snitch'') = (\<lambda>i. None)"
    by (simp add: plain_world_def)
  note r = updateInPlace_written [OF h1 h2 h3 h4 h5, unfolded hw]
  have a: "fst (Update ?t ?w) = None" unfolding Update_def by (rule r(1))
  have b: "files (snd (Update ?t ?w)) ''main.go'' =
      Some \<lparr>data = ''// TODO(#1): x'' @ [newline], read_err = EOF\<rparr>"
    unfolding Update_def using r(2) scan by (simp add: String_def)
  have g1: "open_err ?v (Filename ?t) = None" by (simp add: plain_world_def)
  have g2: "files ?v (Filename ?t) = Some ?g" by (simp add: plain_world_def)
  have g3: "create_err ?v (Filename ?t @ ''.snitch'') = None" by (simp add: plain_world_def)
  have g4: "rename_err ?v (Filename ?t @ ''.snitch'') (Filename ?t) = None"
    by (simp add: plain_world_def)
  have g5: "close_fault ?v (Filename ?t @ ''.snitch'') = None" by (simp add: plain_world_def)
  have gw: "write_fault ?v (Filename ?t @ ''.snitch'') = (\<lambda>i. None)"
    by (simp add: plain_world_def)
  note q = updateInPlace_written [OF g1 g2 g3 g4 g5, unfolded gw]
  have c: "fst (Update ?t ?v) = None" unfolding Update_def by (rule q(1))
  have d: "files (snd (Update ?t ?v)) ''main.go'' =
      Some \<lparr>data = ''// TODO(#1): x'' @ [newline], read_err = EOF\<rparr>"
    unfolding Update_def using q(2) scan' by (simp add: String_def)
  from a b c d scan scan' show ?thesis by simp
qed

section \<open>Properties of the tree walker\<close>

lemma visit_lines_append:
  "visit_lines cfg path visit n (xs @ ys) st =
     (case visit_lines cfg path visit n xs st of
        (Some err, st') \<Rightarrow> (Some err, st')
      | (None, st') \<Rightarrow> visit_lines cfg path visit (n + int (length xs)) ys st')"
proof (induction xs arbitrary: n st)
  case Nil
  show ?case by simp
next
  case (Cons x xs)
  have eq: "n + 1 + int (length xs) = n + int (length (x # xs))" by simp
  show ?case
    by (simp add: Cons.IH eq split: option.splits prod.splits)
qed

lemma walk_files_append:
  "walk_files cfg visit w (pre @ post) st =
     (case walk_files cfg visit w pre st of
        (Some err, st') \<Rightarrow> (Some err, st')
      | (None, st') \<Rightarrow> walk_files cfg visit w post st')"
  by (induction pre arbitrary: st) (simp_all split: option.splits prod.splits)

lemma walk_files_stops:
  assumes "walk_files cfg visit w pre st = (None, st1)"
    and "WalkTodosOfFile cfg filepath visit w st1 = (Some err, st2)"
  shows "walk_files cfg visit w (pre @ filepath # post) st = (Some err, st2)"
  using assms by (simp add: walk_files_append)

section \<open>Claims about the tree walker\<close>

text \<open>
  C4. Let the walk have come through the files \<open>pre\<close> listed before \<open>filepath\<close>
  without error, leaving the visitor in state \<open>st1\<close>. If \<open>filepath\<close> cannot be
  opened, or the visitor returns an error for one of its Todos, or reading it ends in
  an error other than \<open>io.EOF\<close>, then \<open>WalkTodosOfDir\<close> returns exactly that error,
  and the state of the visitor is the one it had when the error occurred: the visitor
  is not called for any later line of the file nor for any of the files \<open>post\<close> listed
  after it, and no other error is collected.
\<close>

theorem WalkTodosOfDir_fails_fast:
  assumes "git_ls_files w dirpath = Inr outb"
    and "fst (scan_tokens outb EOF) = pre @ filepath # post"
    and "walk_files cfg visit w pre st = (None, st1)"
  shows "(os_Open w filepath = Some err \<longrightarrow>
            WalkTodosOfDir cfg dirpath visit w st = (Some err, st1)) \<and>
         (os_Open w filepath = None \<and>
          read_lines (data (read_handle w filepath)) = before @ text # after \<and>
          visit_lines cfg filepath visit 1 before st1 = (None, st2) \<and>
          LineAsTodo cfg text = Some todo \<and>
          visit (todo\<lparr>Filename := filepath, Line := 1 + int (length before)\<rparr>) st2 =
            (Some err, st3) \<longrightarrow>
            WalkTodosOfDir cfg dirpath visit w st = (Some err, st3)) \<and>
         (os_Open w filepath = None \<and>
          visit_lines cfg filepath visit 1 (read_lines (data (read_handle w filepath))) st1 =
            (None, st2) \<and>
          read_err (read_handle w filepath) = err \<and> err \<noteq> EOF \<longrightarrow>
            WalkTodosOfDir cfg dirpath visit w st = (Some err, st2))"
proof -
  have dir: "WalkTodosOfDir cfg dirpath visit w st =
               walk_files cfg visit w (pre @ filepath # post) st"
    using assms(1,2) by (simp add: WalkTodosOfDir_def)
  have stop: "WalkTodosOfDir cfg dirpath visit w st = (Some e, s)"
    if "WalkTodosOfFile cfg filepath visit w st1 = (Some e, s)" for e s
    unfolding dir using assms(3) that by (rule walk_files_stops)
  have a: "WalkTodosOfDir cfg dirpath visit w st = (Some err, st1)"
    if "os_Open w filepath = Some err"
    using that by (intro stop) (simp add: WalkTodosOfFile_def)
  have b: "WalkTodosOfDir cfg dirpath visit w st = (Some err, st3)"
    if "os_Open w filepath = None"
      and "read_lines (data (read_handle w filepath)) = before @ text # after"
      and "visit_lines cfg filepath visit 1 before st1 = (None, st2)"
      and "LineAsTodo cfg text = Some todo"
      and "visit (todo\<lparr>Filename := filepath, Line := 1 + int (length before)\<rparr>) st2 =
             (Some err, st3)"
  proof (rule stop)
    have "visit_lines cfg filepath visit 1 (before @ text # after) st1 = (Some err, st3)"
      using that(3,4,5) by (simp add: visit_lines_append)
    then show "WalkTodosOfFile cfg filepath visit w st1 = (Some err, st3)"
      using that(1,2) by (simp add: WalkTodosOfFile_def Let_def)
  qed
  have c: "WalkTodosOfDir cfg dirpath visit w st = (Some err, st2)"
    if "os_Open w filepath = None"
      and "visit_lines cfg filepath visit 1 (read_lines (data (read_handle w filepath))) st1 =
             (None, st2)"
      and "read_err (read_handle w filepath) = err" and "err \<noteq> EOF"
    using that by (intro stop) (simp add: WalkTodosOfFile_def Let_def)
  from a b c show ?thesis by blast
qed

theorem WalkTodosOfDir_fails_fast_witness:
  "(git_ls_files example_tree ''src'' =
      Inr (''src/a.go'' @ newline # ''src/m.go'' @ newline # ''src/z.go'' @ [newline]) \<and>
    fst (scan_tokens (''src/a.go'' @ newline # ''src/m.go'' @ newline # ''src/z.go'' @ [newline])
      EOF) = [''src/a.go''] @ ''src/m.go'' # [''src/z.go''] \<and>
    walk_files \<lparr>Title_Transform = id\<rparr> collect example_tree [''src/a.go''] [] =
      (None, [\<lparr>Prefix = ''// '', Suffix = ''first'', ID = None, Filename = ''src/a.go'',
                Line = 1, Title = ''first''\<rparr>]) \<and>
    os_Open example_tree ''src/m.go'' = Some ErrNotExist \<and>
    WalkTodosOfDir \<lparr>Title_Transform = id\<rparr> ''src'' collect example_tree [] =
      (Some ErrNotExist,
       [\<lparr>Prefix = ''// '', Suffix = ''first'', ID = None, Filename = ''src/a.go'',
         Line = 1, Title = ''first''\<rparr>])) \<and>
   (git_ls_files example_tree ''lib'' = Inr (''lib/a.go'' @ newline # ''lib/z.go'' @ [newline]) \<and>
    fst (scan_tokens (''lib/a.go'' @ newline # ''lib/z.go'' @ [newline]) EOF) =
      [] @ ''lib/a.go'' # [''lib/z.go''] \<and>
    walk_files \<lparr>Title_Transform = id\<rparr> collect_until_reported example_tree [] [] = (None, []) \<and>
    os_Open example_tree ''lib/a.go'' = None \<and>
    read_lines (data (read_handle example_tree ''lib/a.go'')) =
      [''// TODO: one''] @ ''// TODO(#7): two'' # [''// TODO: three''] \<and>
    visit_lines \<lparr>Title_Transform = id\<rparr> ''lib/a.go'' collect_until_reported 1
      [''// TODO: one''] [] =
      (None, [\<lparr>Prefix = ''// '', Suffix = ''one'', ID = None, Filename = ''lib/a.go'',
                Line = 1, Title = ''one''\<rparr>]) \<and>
    LineAsTodo \<lparr>Title_Transform = id\<rparr> ''// TODO(#7): two'' =
      Some \<lparr>Prefix = ''// '', Suffix = ''two'', ID = Some ''#7'', Filename = [], Line = 0,
            Title = ''two''\<rparr> \<and>
    collect_until_reported
      (\<lparr>Prefix = ''// '', Suffix = ''two'', ID = Some ''#7'', Filename = [], Line = 0,
        Title = ''two''\<rparr>\<lparr>Filename := ''lib/a.go'', Line := 1 + int (length [''// TODO: one''])\<rparr>)
      [\<lparr>Prefix = ''// '', Suffix = ''one'', ID = None, Filename = ''lib/a.go'',
        Line = 1, Title = ''one''\<rparr>] =
      (Some (ErrOther ''#7''),
       [\<lparr>Prefix = ''// '', Suffix = ''one'', ID = None, Filename = ''lib/a.go'',
         Line = 1, Title = ''one''\<rparr>]) \<and>
    WalkTodosOfDir \<lparr>Title_Transform = id\<rparr> ''lib'' collect_until_reported example_tree [] =
      (Some (ErrOther ''#7''),
       [\<lparr>Prefix = ''// '', Suffix = ''one'', ID = None, Filename = ''lib/a.go'',
         Line = 1, Title = ''one''\<rparr>])) \<and>
   (git_ls_files example_tree ''doc'' = Inr (''doc/a.go'' @ newline # ''doc/z.go'' @ [newline]) \<and>
    fst (scan_tokens (''doc/a.go'' @ newline # ''doc/z.go'' @ [newline]) EOF) =
      [] @ ''doc/a.go'' # [''doc/z.go''] \<and>
    walk_files \<lparr>Title_Transform = id\<rparr> collect example_tree [] [] = (None, []) \<and>
    os_Open example_tree ''doc/a.go'' = None \<and>
    visit_lines \<lparr>Title_Transform = id\<rparr> ''doc/a.go'' collect 1
      (read_lines (data (read_handle example_tree ''doc/a.go''))) [] =
      (None, [\<lparr>Prefix = ''// '', Suffix = ''first'', ID = None, Filename = ''doc/a.go'',
                Line = 1, Title = ''first''\<rparr>]) \<and>
    read_err (read_handle example_tree ''doc/a.go'') = ErrOther ''input/output error'' \<and>
    ErrOther ''input/output error'' \<noteq> EOF \<and>
    WalkTodosOfDir \<lparr>Title_Transform = id\<rparr> ''doc'' collect example_tree [] =
      (Some (ErrOther ''input/output error''),
       [\<lparr>Prefix = ''// '', Suffix = ''first'', ID = None, Filename = ''doc/a.go'',
         Line = 1, Title = ''first''\<rparr>]))"
proof -
  let ?cfg = "\<lparr>Title_Transform = id\<rparr>"
  note ev = example_tree_def scan_tokens.simps read_lines.simps defaultBufSize_def
    MaxScanTokenSize_def newline_def dropCR_def carriage_return_def os_Open_def
    read_handle_def WalkTodosOfFile_def LineAsTodo_def lineAsUnreportedTodo_def
    lineAsReportedTodo_def unreportedTodo_regexp_def reportedTodo_regexp_def
    regex_match_Grp dot_span_def collect_def collect_until_reported_def Let_def
  have a1: "git_ls_files example_tree ''src'' =
      Inr (''src/a.go'' @ newline # ''src/m.go'' @ newline # ''src/z.go'' @ [newline])"
    by (simp add: example_tree_def)
  have a2: "fst (scan_tokens (''src/a.go'' @ newline # ''src/m.go'' @ newline # ''src/z.go'' @ [newline])
      EOF) = [''src/a.go''] @ ''src/m.go'' # [''src/z.go'']"
    by (simp add: ev)
  have a3: "walk_files ?cfg collect example_tree [''src/a.go''] [] =
      (None, [\<lparr>Prefix = ''// '', Suffix = ''first'', ID = None, Filename = ''src/a.go'',
                Line = 1, Title = ''first''\<rparr>])"
    by (simp add: ev)
  have a4: "os_Open example_tree ''src/m.go'' = Some ErrNotExist"
    by (simp add: ev)
  have b1: "git_ls_files example_tree ''lib'' = Inr (''lib/a.go'' @ newline # ''lib/z.go'' @ [newline])"
    by (simp add: example_tree_def)
  have b2: "fst (scan_tokens (''lib/a.go'' @ newline # ''lib/z.go'' @ [newline]) EOF) =
      [] @ ''lib/a.go'' # [''lib/z.go'']"
    by (simp add: ev)
  have b3: "walk_files ?cfg collect_until_reported example_tree [] [] = (None, [])"
    by simp
  have b4: "os_Open example_tree ''lib/a.go'' = None \<and>
    read_lines (data (read_handle example_tree ''lib/a.go'')) =
      [''// TODO: one''] @ ''// TODO(#7): two'' # [''// TODO: three''] \<and>
    visit_lines ?cfg ''lib/a.go'' collect_until_reported 1 [''// TODO: one''] [] =
      (None, [\<lparr>Prefix = ''// '', Suffix = ''one'', ID = None, Filename = ''lib/a.go'',
                Line = 1, Title = ''one''\<rparr>]) \<and>
    LineAsTodo ?cfg ''// TODO(#7): two'' =
      Some \<lparr>Prefix = ''// '', Suffix = ''two'', ID = Some ''#7'', Filename = [], Line = 0,
            Title = ''two''\<rparr> \<and>
    collect_until_reported
      (\<lparr>Prefix = ''// '', Suffix = ''two'', ID = Some ''#7'', Filename = [], Line = 0,
        Title = ''two''\<rparr>\<lparr>Filename := ''lib/a.go'', Line := 1 + int (length [''// TODO: one''])\<rparr>)
      [\<lparr>Prefix = ''// '', Suffix = ''one'', ID = None, Filename = ''lib/a.go'',
        Line = 1, Title = ''one''\<rparr>] =
      (Some (ErrOther ''#7''),
       [\<lparr>Prefix = ''// '', Suffix = ''one'', ID = None, Filename = ''lib/a.go'',
         Line = 1, Title = ''one''\<rparr>])"
    by (simp add: ev)
  have c1: "git_ls_files example_tree ''doc'' = Inr (''doc/a.go'' @ newline # ''doc/z.go'' @ [newline])"
    by (simp add: example_tree_def)
  have c2: "fst (scan_tokens (''doc/a.go'' @ newline # ''doc/z.go'' @ [newline]) EOF) =
      [] @ ''doc/a.go'' # [''doc/z.go'']"
    by (simp add: ev)
  have c3: "walk_files ?cfg collect example_tree [] [] = (None, [])"
    by simp
  have c4: "os_Open example_tree ''doc/a.go'' = None \<and>
    visit_lines ?cfg ''doc/a.go'' collect 1
      (read_lines (data (read_handle example_tree ''doc/a.go''))) [] =
      (None, [\<lparr>Prefix = ''// '', Suffix = ''first'', ID = None, Filename = ''doc/a.go'',
                Line = 1, Title = ''first''\<rparr>]) \<and>
    read_err (read_handle example_tree ''doc/a.go'') = ErrOther ''input/output error'' \<and>
    ErrOther ''input/output error'' \<noteq> EOF"
    by (simp add: ev)
  note A = WalkTodosOfDir_fails_fast [OF a1 a2 a3, THEN conjunct1, rule_format, OF a4]
  note B = WalkTodosOfDir_fails_fast [OF b1 b2 b3, THEN conjunct2, THEN conjunct1,
      rule_format, OF b4]
  note C = WalkTodosOfDir_fails_fast [OF c1 c2 c3, THEN conjunct2, THEN conjunct2,
      rule_format, OF c4]
  from a1 a2 a3 a4 A b1 b2 b3 b4 B c1 c2 c3 c4 C show ?thesis
    by (intro conjI) (simp_all only: simp_thms)
qed

end
